theory Spec2Isabelle
  imports Complex_Main
begin

section \<open>Python values used by the news uploader\<close>

text \<open>
  A Python \<open>str\<close> is a sequence of Unicode code points and \<open>len\<close> counts code points,
  so a string is modelled as the list of its code points. \<open>py\<close> turns a literal of the
  source into that representation.
\<close>

type_synonym pystr = "nat list"

definition py :: "string \<Rightarrow> pystr" where
  "py s = map of_char s"

text \<open>\<open>s.startswith(p)\<close> and the substring test \<open>sub in s\<close>.\<close>

fun startswith :: "'a list \<Rightarrow> 'a list \<Rightarrow> bool" where
  "startswith s [] = True"
| "startswith [] (p # ps) = False"
| "startswith (c # cs) (p # ps) = (c = p \<and> startswith cs ps)"

fun contains :: "'a list \<Rightarrow> 'a list \<Rightarrow> bool" where
  "contains [] sub = (sub = [])"
| "contains (c # cs) sub = (startswith (c # cs) sub \<or> contains cs sub)"

text \<open>The exceptions that the modelled functions raise or catch.\<close>

datatype py_error =
    ValueError
  | AttributeError
  | Exception pystr

subsection \<open>\<open>datetime\<close> and \<open>timedelta\<close>\<close>

text \<open>
  A naive \<open>datetime\<close>. The calendar date is kept as its proleptic Gregorian ordinal
  (\<open>date.toordinal()\<close>): the functions below never change the date, and a difference of
  two datetimes depends on the dates through their ordinals only.
  A \<open>timedelta\<close> is its exact number of microseconds.
\<close>

record datetime =
  ordinal :: int
  hour :: int
  minute :: int
  second :: int
  microsecond :: int

type_synonym timedelta = int

definition to_microseconds :: "datetime \<Rightarrow> int" where
  "to_microseconds d =
     ((((ordinal d * 24 + hour d) * 60 + minute d) * 60) + second d) * 1000000 + microsecond d"

definition dt_sub :: "datetime \<Rightarrow> datetime \<Rightarrow> timedelta" where
  "dt_sub a b = to_microseconds a - to_microseconds b"

text \<open>
  \<open>timedelta.total_seconds()\<close> divides the microseconds by \<open>10**6\<close>. The source compares
  the quotient with the integers 120, 3000 and 82800 only; the correctly rounded float
  quotient and the exact quotient compare alike with these, so the exact quotient is used.
\<close>

definition total_seconds :: "timedelta \<Rightarrow> rat" where
  "total_seconds td = of_int td / 1000000"

text \<open>\<open>d.replace(hour=h, minute=m)\<close> raises \<open>ValueError\<close> for a field out of range.\<close>

definition replace_hour_minute :: "datetime \<Rightarrow> int \<Rightarrow> int \<Rightarrow> py_error + datetime" where
  "replace_hour_minute d h m =
     (if 0 \<le> h \<and> h < 24 \<and> 0 \<le> m \<and> m < 60
      then Inr (d\<lparr>hour := h, minute := m\<rparr>)
      else Inl ValueError)"

section \<open>The task scheduler (\<open>app/scheduler.py\<close>)\<close>

text \<open>
  A document of the \<open>scheduler_tasks\<close> collection. \<open>last_run\<close> is \<open>None\<close>, a
  \<open>datetime\<close> (what \<open>update_task_last_run\<close> writes) or a string in ISO format.
\<close>

datatype last_run_value =
    LR_None
  | LR_Datetime datetime
  | LR_Str pystr

record task =
  name :: pystr
  task_routine :: pystr
  sched_hour :: int
  sched_minute :: int
  enabled :: bool
  last_run :: last_run_value

text \<open>Truthiness of \<open>task.get('last_run')\<close>: \<open>None\<close> and the empty string are false.\<close>

fun last_run_truthy :: "last_run_value \<Rightarrow> bool" where
  "last_run_truthy LR_None = False"
| "last_run_truthy (LR_Datetime d) = True"
| "last_run_truthy (LR_Str s) = (s \<noteq> [])"

text \<open>
  \<open>last_run if isinstance(last_run, datetime) else datetime.fromisoformat(last_run)\<close>.
  The parser is a parameter: \<open>None\<close> stands for the \<open>ValueError\<close> it raises on a
  string that is not in ISO format.
\<close>

fun last_run_datetime :: "(pystr \<Rightarrow> datetime option) \<Rightarrow> last_run_value \<Rightarrow> py_error + datetime" where
  "last_run_datetime fromisoformat (LR_Datetime d) = Inr d"
| "last_run_datetime fromisoformat (LR_Str s) =
     (case fromisoformat s of None \<Rightarrow> Inl ValueError | Some d \<Rightarrow> Inr d)"
| "last_run_datetime fromisoformat LR_None = Inl ValueError"

definition min_interval :: "pystr \<Rightarrow> int" where
  "min_interval task_name =
     (if contains task_name (py ''cleanup'') then 23 * 3600 else 50 * 60)"

text \<open>
  \<open>MongoDBScheduler.should_run_task\<close>; \<open>utcnow\<close> is the value of \<open>datetime.utcnow()\<close>.
\<close>

definition should_run_task ::
  "(pystr \<Rightarrow> datetime option) \<Rightarrow> datetime \<Rightarrow> task \<Rightarrow> py_error + bool" where
  "should_run_task fromisoformat utcnow t =
     (let now = utcnow\<lparr>second := 0, microsecond := 0\<rparr> in
      case replace_hour_minute now (sched_hour t) (sched_minute t) of
        Inl e \<Rightarrow> Inl e
      | Inr task_time \<Rightarrow>
          if \<bar>total_seconds (dt_sub now task_time)\<bar> > 120 then Inr False
          else if last_run_truthy (last_run t) then
            (case last_run_datetime fromisoformat (last_run t) of
               Inl e \<Rightarrow> Inl e
             | Inr last_run_dt \<Rightarrow>
                 if total_seconds (dt_sub now last_run_dt) < of_int (min_interval (name t))
                 then Inr False
                 else Inr True)
          else Inr True)"

section \<open>The delivery client (\<open>app/services/telegram_bot.py\<close>)\<close>

text \<open>
  An article as the fetcher builds it and the pipeline passes it on: a dictionary with the
  keys \<open>title\<close>, \<open>link\<close>, \<open>image_url\<close>, \<open>description\<close> and \<open>source\<close>, where the image
  and the description may be \<open>None\<close>; the pipeline adds the key \<open>is_posted\<close>.
\<close>

record article =
  title :: pystr
  link :: pystr
  image_url :: "pystr option"
  description :: "pystr option"
  source :: pystr
  is_posted :: "bool option"

text \<open>Truthiness of an optional string: \<open>None\<close> and \<open>''\<close> are false.\<close>

fun truthy :: "pystr option \<Rightarrow> bool" where
  "truthy None = False"
| "truthy (Some s) = (s \<noteq> [])"

text \<open>
  \<open>d[:n] + "..." if len(d) > n else d\<close>, the shortening of the description, and
  \<open>if len(m) > limit: m = m[:keep] + "..."\<close>, the cap on the whole text.
\<close>

definition shorten :: "nat \<Rightarrow> pystr \<Rightarrow> pystr" where
  "shorten n d = (if length d > n then take n d @ py ''...'' else d)"

definition cap :: "nat \<Rightarrow> nat \<Rightarrow> pystr \<Rightarrow> pystr" where
  "cap limit keep m = (if length m > limit then take keep m @ py ''...'' else m)"

text \<open>The last line of every text: an HTML anchor to the article (34 is the double quote).\<close>

definition link_line :: "article \<Rightarrow> pystr" where
  "link_line a = py ''<a href='' @ [34] @ link a @ [34] @ py ''>Read full article</a>''"

text \<open>
  The text that \<open>send_message\<close> and \<open>send_photo\<close> assemble before the cap; \<open>n\<close> is the
  length the description is shortened to (300 and 200). 10 is the newline.
\<close>

definition assemble :: "nat \<Rightarrow> article \<Rightarrow> pystr" where
  "assemble n a =
     (let message = py ''<b>'' @ title a @ py ''</b>'';
          message = (case description a of
                       Some d \<Rightarrow> if d \<noteq> [] then message @ [10, 10] @ shorten n d else message
                     | None \<Rightarrow> message)
      in message @ [10, 10] @ link_line a)"

definition message_text :: "article \<Rightarrow> pystr" where
  "message_text a = cap 4096 4090 (assemble 300 a)"

definition photo_caption :: "article \<Rightarrow> pystr" where
  "photo_caption a = cap 1024 1020 (assemble 200 a)"

text \<open>
  The two calls of the messaging API, with the text, or with the photo and its caption
  (chat id and parse mode are fixed settings), and what
  \<open>requests.post\<close> gives back: an exception, or a response with a status code and a body
  that is not JSON (the result is then \<open>{}\<close>), is JSON that does not parse, or is a JSON
  object with its \<open>ok\<close> flag and optional \<open>description\<close>.
\<close>

datatype request =
    SendMessage pystr
  | SendPhoto "pystr option" pystr

datatype json_body =
    No_json
  | Invalid_json
  | Json bool "pystr option"

record response =
  status_code :: nat
  body :: json_body

text \<open>The sink answers the \<open>i\<close>-th call of a run of \<open>post_articles\<close>.\<close>

type_synonym sink = "nat \<Rightarrow> request \<Rightarrow> py_error + response"

definition check_response :: "response \<Rightarrow> py_error + json_body" where
  "check_response r =
     (case body r of
        Invalid_json \<Rightarrow> Inl ValueError
      | No_json \<Rightarrow> Inl (Exception (py ''Telegram API error: '' @ py ''Unknown error''))
      | Json ok descr \<Rightarrow>
          if status_code r = 200 \<and> ok then Inr (body r)
          else Inl (Exception (py ''Telegram API error: '' @
                 (case descr of None \<Rightarrow> py ''Unknown error'' | Some d \<Rightarrow> d))))"

text \<open>\<open>send_message\<close> and \<open>send_photo\<close> log an exception and raise it again.\<close>

definition send_message :: "sink \<Rightarrow> nat \<Rightarrow> article \<Rightarrow> py_error + json_body" where
  "send_message snk i a =
     (case snk i (SendMessage (message_text a)) of
        Inl e \<Rightarrow> Inl e
      | Inr r \<Rightarrow> check_response r)"

definition send_photo :: "sink \<Rightarrow> nat \<Rightarrow> article \<Rightarrow> py_error + json_body" where
  "send_photo snk i a =
     (case snk i (SendPhoto (image_url a) (photo_caption a)) of
        Inl e \<Rightarrow> Inl e
      | Inr r \<Rightarrow> check_response r)"

text \<open>
  What a run does to the outside world, in order: the calls of the messaging API, the
  pauses, the calls of the store and of the feed.
\<close>

datatype event =
    Ev_get_me
  | Ev_feed
  | Ev_send request
  | Ev_sleep nat
  | Ev_article_exists pystr pystr
  | Ev_save_article pystr pystr
  | Ev_mark_posted pystr pystr
  | Ev_save_status

text \<open>
  The body of the loop of \<open>post_articles\<close> for the article of index \<open>i\<close> out of \<open>n\<close>:
  the framing, the count and the pause after a delivery that is not the last; an
  exception of the delivery is logged and the loop continues.
\<close>

definition request_of :: "article \<Rightarrow> request" where
  "request_of a =
     (if truthy (image_url a) then SendPhoto (image_url a) (photo_caption a)
      else SendMessage (message_text a))"

definition post_one :: "sink \<Rightarrow> nat \<Rightarrow> article \<Rightarrow> py_error + json_body" where
  "post_one snk i a =
     (if truthy (image_url a) then send_photo snk i a else send_message snk i a)"

fun post_loop :: "sink \<Rightarrow> nat \<Rightarrow> nat \<Rightarrow> article list \<Rightarrow> nat \<Rightarrow> event list \<Rightarrow> nat \<times> event list" where
  "post_loop snk n i [] posted_count tr = (posted_count, tr)"
| "post_loop snk n i (a # as) posted_count tr =
     (case post_one snk i a of
        Inr result \<Rightarrow>
          post_loop snk n (i + 1) as (posted_count + 1)
            (tr @ [Ev_send (request_of a)] @ (if int i < int n - 1 then [Ev_sleep 1] else []))
      | Inl e \<Rightarrow>
          post_loop snk n (i + 1) as posted_count (tr @ [Ev_send (request_of a)]))"

definition post_articles :: "sink \<Rightarrow> article list \<Rightarrow> nat \<times> event list" where
  "post_articles snk articles = post_loop snk (length articles) 0 articles 0 []"

section \<open>The feed client (\<open>app/services/news_fetcher.py\<close>)\<close>

text \<open>
  An entry of the parsed feed: \<open>item.title\<close>, \<open>item.link\<close> and \<open>item.summary\<close> are
  attributes that an entry may lack (reading a missing one raises \<open>AttributeError\<close>).
  \<open>feedparser.parse\<close> raises or returns the entries it found.
\<close>

record entry =
  entry_title :: "pystr option"
  entry_link :: "pystr option"
  entry_summary :: "pystr option"

datatype feed =
    Feed_raises
  | Feed "entry list"

text \<open>
  \<open>extract_article_content\<close> scrapes the page of an article for an image and a description.
  It catches every exception itself and then returns \<open>(None, None)\<close>, so it is a function
  of the link, and a parameter here.
\<close>

type_synonym extractor = "pystr \<Rightarrow> pystr option \<times> pystr option"

text \<open>The body of the loop of \<open>fetch_cricket_news\<close> up to the article it appends.\<close>

definition process_entry :: "extractor \<Rightarrow> entry \<Rightarrow> py_error + article" where
  "process_entry extract_article_content item =
     (case entry_link item of
        None \<Rightarrow> Inl AttributeError
      | Some item_link \<Rightarrow>
          (let (image, descr) = extract_article_content item_link;
               descr = (if \<not> truthy descr \<and> entry_summary item \<noteq> None
                        then entry_summary item else descr)
           in case entry_title item of
                None \<Rightarrow> Inl AttributeError
              | Some item_title \<Rightarrow>
                  Inr \<lparr>title = item_title, link = item_link, image_url = image,
                       description = descr, source = py ''ESPN'', is_posted = None\<rparr>))"

text \<open>
  The loop: an entry that raises is logged and skipped, and the loop stops as soon as
  5 articles are collected.
\<close>

fun fetch_loop :: "extractor \<Rightarrow> entry list \<Rightarrow> article list \<Rightarrow> article list" where
  "fetch_loop ex [] articles = articles"
| "fetch_loop ex (item # items) articles =
     (case process_entry ex item of
        Inl e \<Rightarrow> fetch_loop ex items articles
      | Inr a \<Rightarrow>
          (let articles = articles @ [a]
           in if length articles \<ge> 5 then articles else fetch_loop ex items articles))"

definition fetch_cricket_news :: "extractor \<Rightarrow> feed \<Rightarrow> article list" where
  "fetch_cricket_news ex fd =
     (case fd of
        Feed_raises \<Rightarrow> []
      | Feed entries \<Rightarrow>
          if entries = [] then []
          else (let max_articles = min 10 (length entries)
                in fetch_loop ex (take max_articles entries) []))"

section \<open>The store (\<open>app/mongodb_service.py\<close>)\<close>

text \<open>
  The documents of the collections \<open>news_articles\<close> and \<open>bot_status\<close>. A collection is
  the list of its documents in insertion order; \<open>doc_id\<close> is the \<open>_id\<close> that the database
  assigns, taken from a counter.
\<close>

record article_doc =
  doc_id :: nat
  doc_title :: pystr
  doc_link :: pystr
  doc_image_url :: "pystr option"
  doc_description :: "pystr option"
  doc_source :: pystr
  posted_at :: datetime
  doc_is_posted :: bool

record status_doc =
  st_id :: nat
  st_last_run :: datetime
  st_articles_posted :: nat
  st_status :: pystr
  st_error_message :: "pystr option"

record db =
  news_articles :: "article_doc list"
  bot_status :: "status_doc list"
  next_id :: nat

text \<open>
  A run talks to the outside world: \<open>db_up k\<close> tells whether the \<open>k\<close>-th call of the
  database made so far returns (otherwise it raises), \<open>clock k\<close> is the value of
  \<open>datetime.utcnow()\<close> read when \<open>k\<close> calls have been made. The other fields are the
  answer of \<open>getMe\<close>, the parsed feed, the page scraper and the messaging sink.
\<close>

datatype get_me_body =
    Me_invalid_json
  | Me_json bool "(pystr \<times> pystr) list option"

record env =
  db_up :: "nat \<Rightarrow> bool"
  clock :: "nat \<Rightarrow> datetime"
  get_me :: "py_error + nat \<times> get_me_body"
  parsed_feed :: feed
  scraper :: extractor
  telegram :: sink

text \<open>The state that a run threads: the database, the calls made to it, the events so far.\<close>

record world =
  store :: db
  calls :: nat
  trace :: "event list"

definition matches :: "pystr \<Rightarrow> pystr \<Rightarrow> article_doc \<Rightarrow> bool" where
  "matches t s d = (doc_title d = t \<and> doc_source d = s)"

definition find_one :: "db \<Rightarrow> pystr \<Rightarrow> pystr \<Rightarrow> article_doc option" where
  "find_one d t s = List.find (matches t s) (news_articles d)"

text \<open>\<open>update_one\<close> changes the first document that matches the filter.\<close>

fun update_first :: "('a \<Rightarrow> bool) \<Rightarrow> ('a \<Rightarrow> 'a) \<Rightarrow> 'a list \<Rightarrow> 'a list" where
  "update_first P f [] = []"
| "update_first P f (x # xs) = (if P x then f x # xs else x # update_first P f xs)"

text \<open>
  \<open>article_exists\<close>: an exception of the database is logged and the answer is \<open>False\<close>.
\<close>

definition article_exists :: "env \<Rightarrow> pystr \<Rightarrow> pystr \<Rightarrow> world \<Rightarrow> bool \<times> world" where
  "article_exists e t s w =
     (let w1 = w\<lparr>calls := calls w + 1, trace := trace w @ [Ev_article_exists t s]\<rparr>
      in if db_up e (calls w) then (find_one (store w) t s \<noteq> None, w1)
         else (False, w1))"

text \<open>
  \<open>save_article\<close>: an upsert with \<open>$setOnInsert\<close> on the key (title, source). When no
  document matches, the new document is inserted and its id returned; when one matches,
  nothing is written and a second call reads the id of the existing document. An
  exception of either call is logged and the result is \<open>None\<close>.
\<close>

definition article_document :: "datetime \<Rightarrow> article \<Rightarrow> nat \<Rightarrow> article_doc" where
  "article_document now article_data i =
     \<lparr>doc_id = i,
      doc_title = title article_data,
      doc_link = link article_data,
      doc_image_url = image_url article_data,
      doc_description = description article_data,
      doc_source = source article_data,
      posted_at = now,
      doc_is_posted = (case is_posted article_data of None \<Rightarrow> False | Some b \<Rightarrow> b)\<rparr>"

definition save_article :: "env \<Rightarrow> article \<Rightarrow> world \<Rightarrow> nat option \<times> world" where
  "save_article e article_data w =
     (let now = clock e (calls w);
          t = title article_data; s = source article_data;
          w1 = w\<lparr>calls := calls w + 1, trace := trace w @ [Ev_save_article t s]\<rparr>
      in if \<not> db_up e (calls w) then (None, w1)
         else (case find_one (store w) t s of
                 None \<Rightarrow>
                   (Some (next_id (store w)),
                    w1\<lparr>store := (store w)
                         \<lparr>news_articles := news_articles (store w) @
                            [article_document now article_data (next_id (store w))],
                          next_id := next_id (store w) + 1\<rparr>\<rparr>)
               | Some existing \<Rightarrow>
                   (let w2 = w1\<lparr>calls := calls w1 + 1\<rparr>
                    in if \<not> db_up e (calls w1) then (None, w2)
                       else (map_option doc_id (find_one (store w) t s), w2))))"

text \<open>\<open>mark_article_posted\<close>: an exception of the database is logged and nothing changes.\<close>

definition mark_article_posted :: "env \<Rightarrow> pystr \<Rightarrow> pystr \<Rightarrow> world \<Rightarrow> world" where
  "mark_article_posted e t s w =
     (let w1 = w\<lparr>calls := calls w + 1, trace := trace w @ [Ev_mark_posted t s]\<rparr>
      in if db_up e (calls w)
         then w1\<lparr>store := (store w)
                \<lparr>news_articles :=
                   update_first (matches t s) (\<lambda>d. d\<lparr>doc_is_posted := True\<rparr>)
                     (news_articles (store w))\<rparr>\<rparr>
         else w1)"

text \<open>
  \<open>save_bot_status\<close> appends a status document; the keys of \<open>status_data\<close> are optional.
\<close>

record status_data =
  sd_articles_posted :: "nat option"
  sd_status :: "pystr option"
  sd_error_message :: "pystr option"

definition status_document :: "datetime \<Rightarrow> status_data \<Rightarrow> nat \<Rightarrow> status_doc" where
  "status_document now sd i =
     \<lparr>st_id = i,
      st_last_run = now,
      st_articles_posted = (case sd_articles_posted sd of None \<Rightarrow> 0 | Some n \<Rightarrow> n),
      st_status = (case sd_status sd of None \<Rightarrow> py ''active'' | Some s \<Rightarrow> s),
      st_error_message = sd_error_message sd\<rparr>"

definition save_bot_status :: "env \<Rightarrow> status_data \<Rightarrow> world \<Rightarrow> nat option \<times> world" where
  "save_bot_status e sd w =
     (let now = clock e (calls w);
          w1 = w\<lparr>calls := calls w + 1, trace := trace w @ [Ev_save_status]\<rparr>
      in if db_up e (calls w)
         then (Some (next_id (store w)),
               w1\<lparr>store := (store w)
                    \<lparr>bot_status := bot_status (store w) @
                       [status_document now sd (next_id (store w))],
                     next_id := next_id (store w) + 1\<rparr>\<rparr>)
         else (None, w1))"

subsection \<open>Seeding the task registry\<close>

text \<open>
  \<open>MongoDBService.setup_scheduled_tasks\<close> builds 24 hourly tasks and the daily cleanup,
  all with \<open>last_run = None\<close>, and upserts each by name with \<open>$setOnInsert\<close>: a task
  whose name is already in the collection is left as it is. \<open>format_02d\<close> is the format
  \<open>{hour:02d}\<close> of a number below 100.
\<close>

definition format_02d :: "nat \<Rightarrow> pystr" where
  "format_02d n = [48 + n div 10, 48 + n mod 10]"

definition hourly_task :: "nat \<Rightarrow> task" where
  "hourly_task h =
     \<lparr>name = py ''cricket_news_hour_'' @ format_02d h,
      task_routine = py ''fetch_and_post_cricket_news'',
      sched_hour = int h, sched_minute = 0, enabled = True, last_run = LR_None\<rparr>"

definition cleanup_task :: task where
  "cleanup_task =
     \<lparr>name = py ''cleanup_old_articles_daily'',
      task_routine = py ''cleanup_old_articles'',
      sched_hour = 3, sched_minute = 0, enabled = True, last_run = LR_None\<rparr>"

definition seed_tasks :: "task list" where
  "seed_tasks = map hourly_task [0..<24] @ [cleanup_task]"

definition upsert_task :: "task list \<Rightarrow> task \<Rightarrow> task list" where
  "upsert_task coll t =
     (if \<exists>d \<in> set coll. name d = name t then coll else coll @ [t])"

definition setup_scheduled_tasks :: "task list \<Rightarrow> task list" where
  "setup_scheduled_tasks coll = foldl upsert_task coll seed_tasks"

section \<open>The ingestion pipeline (\<open>app/tasks.py\<close>)\<close>

text \<open>
  \<open>TelegramBot.get_bot_info\<close> returns the \<open>result\<close> object of \<open>getMe\<close> (\<open>{}\<close> when the
  reply has none), or \<open>None\<close> on a failure of any kind.
\<close>

definition get_bot_info :: "env \<Rightarrow> (pystr \<times> pystr) list option" where
  "get_bot_info e =
     (case get_me e of
        Inl err \<Rightarrow> None
      | Inr (code, Me_invalid_json) \<Rightarrow> None
      | Inr (code, Me_json ok res) \<Rightarrow>
          if code = 200 \<and> ok then Some (case res of None \<Rightarrow> [] | Some d \<Rightarrow> d)
          else None)"

text \<open>The dictionary that a run returns.\<close>

datatype run_result =
    Success_message pystr
  | Success_posted nat nat nat datetime
  | Error_result pystr datetime

text \<open>\<open>str(e)\<close> of an exception: its message, empty for one raised without arguments.\<close>

fun str_of_error :: "py_error \<Rightarrow> pystr" where
  "str_of_error (Exception m) = m"
| "str_of_error ValueError = []"
| "str_of_error AttributeError = []"

text \<open>
  The loop that filters the new articles: an article that the store does not know is
  given \<open>is_posted = False\<close>, saved and appended to \<open>new_articles\<close>.
\<close>

fun filter_new :: "env \<Rightarrow> article list \<Rightarrow> article list \<Rightarrow> world \<Rightarrow> article list \<times> world" where
  "filter_new e [] new_articles w = (new_articles, w)"
| "filter_new e (article_data # rest) new_articles w =
     (let (known, w1) = article_exists e (title article_data) (source article_data) w
      in if \<not> known then
           (let article_data = article_data\<lparr>is_posted := Some False\<rparr>;
                (saved, w2) = save_article e article_data w1
            in filter_new e rest (new_articles @ [article_data]) w2)
         else filter_new e rest new_articles w1)"

text \<open>The loop that marks every new article as posted.\<close>

fun mark_all :: "env \<Rightarrow> article list \<Rightarrow> world \<Rightarrow> world" where
  "mark_all e [] w = w"
| "mark_all e (article_data # rest) w =
     mark_all e rest (mark_article_posted e (title article_data) (source article_data) w)"

text \<open>
  The body of the \<open>try\<close> block of \<open>fetch_and_post_cricket_news\<close>: it returns a result or
  raises one of its two exceptions (every callee handles its own).
\<close>

definition run_body :: "env \<Rightarrow> world \<Rightarrow> (py_error + run_result) \<times> world" where
  "run_body e w =
     (let bot_info = get_bot_info e;
          w0 = w\<lparr>trace := trace w @ [Ev_get_me]\<rparr>
      in if bot_info = None \<or> bot_info = Some []
         then (Inl (Exception (py ''Failed to connect to Telegram bot'')), w0)
         else
           (let articles = fetch_cricket_news (scraper e) (parsed_feed e);
                w1 = w0\<lparr>trace := trace w0 @ [Ev_feed]\<rparr>
            in if articles = [] then
                 (let (saved, w2) = save_bot_status e
                        \<lparr>sd_articles_posted = Some 0, sd_status = Some (py ''success''),
                         sd_error_message = Some (py ''No articles found'')\<rparr> w1
                  in (Inr (Success_message (py ''No articles found'')), w2))
               else
                 (let (new_articles, w2) = filter_new e articles [] w1
                  in if new_articles = [] then
                       (let (saved, w3) = save_bot_status e
                              \<lparr>sd_articles_posted = Some 0, sd_status = Some (py ''success''),
                               sd_error_message = Some (py ''No new articles'')\<rparr> w2
                        in (Inr (Success_message (py ''No new articles'')), w3))
                     else
                       (let (posted_count, sent) = post_articles (telegram e) new_articles;
                            w3 = w2\<lparr>trace := trace w2 @ sent\<rparr>
                        in if posted_count = 0
                           then (Inl (Exception (py ''Failed to post any articles'')), w3)
                           else
                             (let w4 = mark_all e new_articles w3;
                                  (saved, w5) = save_bot_status e
                                    \<lparr>sd_articles_posted = Some posted_count,
                                     sd_status = Some (py ''success''),
                                     sd_error_message = None\<rparr> w4
                              in (Inr (Success_posted (length articles) (length new_articles)
                                         posted_count (clock e (calls w5))), w5))))))"

text \<open>
  \<open>fetch_and_post_cricket_news\<close>: an exception of the body becomes an error status (saving
  it is attempted, and \<open>save_bot_status\<close> swallows its own failure) and an error result.
  The function starts from a connected \<open>MongoDBService\<close>; closing the connection in the
  \<open>finally\<close> block changes neither the result nor the store and is left out.
\<close>

definition fetch_and_post_cricket_news :: "env \<Rightarrow> world \<Rightarrow> run_result \<times> world" where
  "fetch_and_post_cricket_news e w =
     (case run_body e w of
        (Inr result, w') \<Rightarrow> (result, w')
      | (Inl err, w') \<Rightarrow>
          (let (saved, w'') = save_bot_status e
                 \<lparr>sd_articles_posted = Some 0, sd_status = Some (py ''error''),
                  sd_error_message = Some (str_of_error err)\<rparr> w'
           in (Error_result (str_of_error err) (clock e (calls w'')), w'')))"

section \<open>Vocabulary of the statements\<close>

text \<open>
  The definitions of this section are not part of the program: they name what the
  properties below speak about.
\<close>

subsection \<open>Scheduler\<close>

text \<open>
  The minute of the day of a time; \<open>within_tolerance\<close>: the time is at most 2 minutes from
  \<open>h:m\<close> of its own calendar day; \<open>clock_distance\<close>: the distance of two minutes of the
  day around the clock, across midnight if that is shorter.
\<close>

definition minute_of_day :: "datetime \<Rightarrow> int" where
  "minute_of_day d = hour d * 60 + minute d"

definition within_tolerance :: "datetime \<Rightarrow> int \<Rightarrow> int \<Rightarrow> bool" where
  "within_tolerance utcnow h m = (\<bar>minute_of_day utcnow - (h * 60 + m)\<bar> \<le> 2)"

definition clock_distance :: "int \<Rightarrow> int \<Rightarrow> int" where
  "clock_distance a b = min ((a - b) mod 1440) ((b - a) mod 1440)"

text \<open>
  The time elapsed since the last run, in microseconds, measured as the scheduler does
  from the current time truncated to the minute.
\<close>

definition elapsed_since :: "datetime \<Rightarrow> datetime \<Rightarrow> timedelta" where
  "elapsed_since utcnow lr = dt_sub (utcnow\<lparr>second := 0, microsecond := 0\<rparr>) lr"

definition valid_schedule :: "task \<Rightarrow> bool" where
  "valid_schedule t =
     (0 \<le> sched_hour t \<and> sched_hour t < 24 \<and> 0 \<le> sched_minute t \<and> sched_minute t < 60)"

text \<open>
  The minimum-spacing condition is met: the task has no last run, or its last run is a
  time and at least the minimum interval has elapsed since.
\<close>

definition spacing_met :: "(pystr \<Rightarrow> datetime option) \<Rightarrow> datetime \<Rightarrow> task \<Rightarrow> bool" where
  "spacing_met f utcnow t =
     (case last_run t of
        LR_None \<Rightarrow> True
      | LR_Datetime lr \<Rightarrow> min_interval (name t) * 1000000 \<le> elapsed_since utcnow lr
      | LR_Str s \<Rightarrow>
          (s = [] \<or> (case f s of None \<Rightarrow> False
             | Some lr \<Rightarrow> min_interval (name t) * 1000000 \<le> elapsed_since utcnow lr)))"

subsection \<open>Delivery client\<close>

text \<open>
  Whether the delivery of the article of index \<open>i\<close> succeeds; the events that an article
  contributes to a run of \<open>post_articles\<close> over \<open>n\<close> articles; the requests sent in a
  trace; and \<open>s.endswith(suf)\<close>.
\<close>

definition succeeded :: "sink \<Rightarrow> nat \<Rightarrow> article \<Rightarrow> bool" where
  "succeeded snk i a = (case post_one snk i a of Inr r \<Rightarrow> True | Inl e \<Rightarrow> False)"

definition item_events :: "sink \<Rightarrow> nat \<Rightarrow> nat \<times> article \<Rightarrow> event list" where
  "item_events snk n ia =
     Ev_send (request_of (snd ia)) #
       (if succeeded snk (fst ia) (snd ia) \<and> fst ia + 1 < n then [Ev_sleep 1] else [])"

fun sends :: "event list \<Rightarrow> request list" where
  "sends [] = []"
| "sends (Ev_send r # es) = r # sends es"
| "sends (e # es) = sends es"

definition endswith :: "'a list \<Rightarrow> 'a list \<Rightarrow> bool" where
  "endswith s suf = startswith (rev s) (rev suf)"

subsection \<open>Feed client\<close>

text \<open>The article that an entry gives, if it gives one.\<close>

definition candidate :: "extractor \<Rightarrow> entry \<Rightarrow> article option" where
  "candidate ex item = (case process_entry ex item of Inl e \<Rightarrow> None | Inr a \<Rightarrow> Some a)"

subsection \<open>Store and pipeline\<close>

text \<open>
  The number of documents with a key; whether a key is stored, and stored as posted (the
  document that \<open>find_one\<close> returns).
\<close>

definition key_count :: "db \<Rightarrow> pystr \<Rightarrow> pystr \<Rightarrow> nat" where
  "key_count d t s = length (filter (matches t s) (news_articles d))"

definition stored_in :: "db \<Rightarrow> pystr \<Rightarrow> pystr \<Rightarrow> bool" where
  "stored_in d t s = (find_one d t s \<noteq> None)"

definition posted_in :: "db \<Rightarrow> pystr \<Rightarrow> pystr \<Rightarrow> bool" where
  "posted_in d t s = (case find_one d t s of None \<Rightarrow> False | Some doc \<Rightarrow> doc_is_posted doc)"

text \<open>
  The stages of a run: the bot answered the probe with a non-empty object; the articles
  that the feed client returns; the world when they are fetched; the new articles and the
  world when the filter loop ends.
\<close>

definition bot_reachable :: "env \<Rightarrow> bool" where
  "bot_reachable e = (get_bot_info e \<noteq> None \<and> get_bot_info e \<noteq> Some [])"

definition fetched :: "env \<Rightarrow> article list" where
  "fetched e = fetch_cricket_news (scraper e) (parsed_feed e)"

definition after_feed :: "world \<Rightarrow> world" where
  "after_feed w = w\<lparr>trace := trace w @ [Ev_get_me, Ev_feed]\<rparr>"

definition new_articles_of :: "env \<Rightarrow> world \<Rightarrow> article list" where
  "new_articles_of e w = fst (filter_new e (fetched e) [] (after_feed w))"

definition after_filter :: "env \<Rightarrow> world \<Rightarrow> world" where
  "after_filter e w = snd (filter_new e (fetched e) [] (after_feed w))"

text \<open>
  The keys marked as posted in a trace, and the statuses recorded in a world: outcome,
  articles posted and message of each status document, oldest first.
\<close>

fun marks :: "event list \<Rightarrow> (pystr \<times> pystr) list" where
  "marks [] = []"
| "marks (Ev_mark_posted t s # es) = (t, s) # marks es"
| "marks (e # es) = marks es"

definition status_view :: "status_doc \<Rightarrow> pystr \<times> nat \<times> pystr option" where
  "status_view d = (st_status d, st_articles_posted d, st_error_message d)"

definition recorded :: "world \<Rightarrow> (pystr \<times> nat \<times> pystr option) list" where
  "recorded w = map status_view (bot_status (store w))"

section \<open>Concrete inputs\<close>

text \<open>A time of day on a given date, and a task with a given name, schedule and last run.\<close>

definition at_time :: "int \<Rightarrow> int \<Rightarrow> int \<Rightarrow> int \<Rightarrow> datetime" where
  "at_time day h m s = \<lparr>ordinal = day, hour = h, minute = m, second = s, microsecond = 0\<rparr>"

definition task_at :: "string \<Rightarrow> int \<Rightarrow> int \<Rightarrow> last_run_value \<Rightarrow> task" where
  "task_at n h m lr =
     \<lparr>name = py n, task_routine = py ''fetch_and_post_cricket_news'',
      sched_hour = h, sched_minute = m, enabled = True, last_run = lr\<rparr>"

text \<open>A sink that raises on the calls whose indices are listed and accepts the others.\<close>

definition ok_response :: response where
  "ok_response = \<lparr>status_code = 200, body = Json True None\<rparr>"

definition failing_sink :: "nat list \<Rightarrow> sink" where
  "failing_sink ks i r =
     (if i \<in> set ks then Inl (Exception (py ''timed out'')) else Inr ok_response)"

text \<open>Articles without and with an image.\<close>

definition plain_article :: "string \<Rightarrow> article" where
  "plain_article t =
     \<lparr>title = py t, link = py ''https://example.org/story'', image_url = None,
      description = None, source = py ''ESPN'', is_posted = None\<rparr>"

definition picture_article :: "pystr \<Rightarrow> article" where
  "picture_article t =
     \<lparr>title = t, link = py ''https://example.org/story'',
      image_url = Some (py ''https://example.org/a.jpg''),
      description = Some (py ''Summary''), source = py ''ESPN'', is_posted = None\<rparr>"

definition second_fetch :: article where
  "second_fetch = (plain_article ''Ashes'')\<lparr>link := py ''https://example.org/second''\<rparr>"

text \<open>
  A page scraper that finds nothing; feed entries \<open>A\<close>, \<open>B\<close>, \<open>C\<close>, ... of which every
  fourth has no title; the articles that the pipeline makes of them.
\<close>

definition no_enrichment :: extractor where
  "no_enrichment l = (None, None)"

definition numbered_entry :: "nat \<Rightarrow> entry" where
  "numbered_entry k =
     \<lparr>entry_title = (if k mod 4 = 3 then None else Some [65 + k]),
      entry_link = Some (py ''https://example.org/'' @ [65 + k]),
      entry_summary = Some (py ''Summary'')\<rparr>"

definition two_entries :: feed where
  "two_entries = Feed [numbered_entry 0, numbered_entry 1]"

definition fetched_article :: "nat \<Rightarrow> article" where
  "fetched_article k =
     \<lparr>title = [65 + k], link = py ''https://example.org/'' @ [65 + k], image_url = None,
      description = Some (py ''Summary''), source = py ''ESPN'', is_posted = Some False\<rparr>"

text \<open>
  An environment whose database fails the calls listed in \<open>down\<close>, whose bot answers, and
  whose sink fails the deliveries listed in \<open>failing\<close>; and a world with an empty store.
\<close>

definition test_env :: "nat list \<Rightarrow> feed \<Rightarrow> nat list \<Rightarrow> env" where
  "test_env down fd failing =
     \<lparr>db_up = (\<lambda>k. k \<notin> set down),
      clock = (\<lambda>k. at_time 739000 10 0 (int k)),
      get_me = Inr (200, Me_json True (Some [(py ''username'', py ''bot'')])),
      parsed_feed = fd,
      scraper = no_enrichment,
      telegram = failing_sink failing\<rparr>"

definition empty_world :: world where
  "empty_world =
     \<lparr>store = \<lparr>news_articles = [], bot_status = [], next_id = 0\<rparr>, calls = 0, trace = []\<rparr>"

section \<open>Properties of the scheduler\<close>

subsection \<open>Arithmetic of the due-ness test\<close>

lemma total_seconds_abs_gt: "(\<bar>total_seconds td\<bar> > of_int k) = (\<bar>td\<bar> > k * 1000000)"
proof -
  have "(of_int k < \<bar>total_seconds td\<bar>) = (of_int k < of_int \<bar>td\<bar> / (1000000::rat))"
    by (simp add: total_seconds_def)
  also have "\<dots> = (of_int k * 1000000 < (of_int \<bar>td\<bar> :: rat))"
    by (rule pos_less_divide_eq) simp
  also have "\<dots> = ((of_int (k * 1000000) :: rat) < of_int \<bar>td\<bar>)"
    by simp
  also have "\<dots> = (k * 1000000 < \<bar>td\<bar>)"
    by (rule of_int_less_iff)
  finally show ?thesis .
qed

lemma total_seconds_lt: "(total_seconds td < of_int k) = (td < k * 1000000)"
proof -
  have "(total_seconds td < of_int k) = (of_int td / (1000000::rat) < of_int k)"
    by (simp add: total_seconds_def)
  also have "\<dots> = ((of_int td :: rat) < of_int k * 1000000)"
    by (rule pos_divide_less_eq) simp
  also have "\<dots> = ((of_int td :: rat) < of_int (k * 1000000))"
    by simp
  also have "\<dots> = (td < k * 1000000)"
    by (rule of_int_less_iff)
  finally show ?thesis .
qed

lemma time_diff_same_day:
  "dt_sub (utcnow\<lparr>second := 0, microsecond := 0\<rparr>)
          (utcnow\<lparr>second := 0, microsecond := 0, hour := h, minute := m\<rparr>)
     = (minute_of_day utcnow - (h * 60 + m)) * 60000000"
  by (simp add: dt_sub_def to_microseconds_def minute_of_day_def algebra_simps)

lemma tolerance_test:
  "(\<bar>total_seconds (dt_sub (utcnow\<lparr>second := 0, microsecond := 0\<rparr>)
          (utcnow\<lparr>second := 0, microsecond := 0, hour := h, minute := m\<rparr>))\<bar> > 120)
    = (\<not> within_tolerance utcnow h m)"
proof -
  have "(\<bar>total_seconds (dt_sub (utcnow\<lparr>second := 0, microsecond := 0\<rparr>)
          (utcnow\<lparr>second := 0, microsecond := 0, hour := h, minute := m\<rparr>))\<bar> > of_int 120)
    = (\<not> within_tolerance utcnow h m)"
    unfolding total_seconds_abs_gt time_diff_same_day within_tolerance_def
    by (simp only: abs_mult) (auto simp: not_le)
  then show ?thesis by simp
qed

lemma should_run_task_unfold:
  assumes "0 \<le> sched_hour t" "sched_hour t < 24" "0 \<le> sched_minute t" "sched_minute t < 60"
  shows "should_run_task f utcnow t =
     (if \<not> within_tolerance utcnow (sched_hour t) (sched_minute t) then Inr False
      else if last_run_truthy (last_run t) then
        (case last_run_datetime f (last_run t) of
           Inl e \<Rightarrow> Inl e
         | Inr lr \<Rightarrow> Inr (\<not> elapsed_since utcnow lr < min_interval (name t) * 1000000))
      else Inr True)"
  using assms
  by (simp add: should_run_task_def replace_hour_minute_def Let_def tolerance_test
      total_seconds_lt elapsed_since_def split: sum.splits)

subsection \<open>The substring test\<close>

lemma startswith_iff: "startswith s p = (\<exists>r. s = p @ r)"
  by (induction s p rule: startswith.induct) auto

lemma contains_iff: "contains s sub = (\<exists>ps ss. s = ps @ sub @ ss)"
proof (induction s)
  case Nil
  then show ?case by auto
next
  case (Cons c cs)
  show ?case
  proof
    assume "contains (c # cs) sub"
    then consider "startswith (c # cs) sub" | "contains cs sub" by auto
    then show "\<exists>ps ss. c # cs = ps @ sub @ ss"
    proof cases
      case 1
      then obtain r where "c # cs = sub @ r" by (auto simp: startswith_iff)
      then have "c # cs = [] @ sub @ r" by simp
      then show ?thesis by blast
    next
      case 2
      then obtain ps ss where "cs = ps @ sub @ ss" using Cons.IH by auto
      then have "c # cs = (c # ps) @ sub @ ss" by simp
      then show ?thesis by blast
    qed
  next
    assume "\<exists>ps ss. c # cs = ps @ sub @ ss"
    then obtain ps ss where eq: "c # cs = ps @ sub @ ss" by auto
    show "contains (c # cs) sub"
    proof (cases ps)
      case Nil
      with eq have "startswith (c # cs) sub" by (auto simp: startswith_iff)
      then show ?thesis by simp
    next
      case (Cons p ps')
      with eq have "cs = ps' @ sub @ ss" by simp
      then have "contains cs sub" using Cons.IH by blast
      then show ?thesis by simp
    qed
  qed
qed

subsection \<open>The seeded registry\<close>

lemma seed_last_run: "t \<in> set seed_tasks \<Longrightarrow> last_run t = LR_None"
  by (auto simp: seed_tasks_def hourly_task_def cleanup_task_def)

lemma seed_schedule:
  "t \<in> set seed_tasks \<Longrightarrow> 0 \<le> sched_hour t \<and> sched_hour t < 24 \<and> sched_minute t = 0"
  by (auto simp: seed_tasks_def hourly_task_def cleanup_task_def)

lemma foldl_upsert_subset: "set (foldl upsert_task coll ts) \<subseteq> set coll \<union> set ts"
proof (induction ts arbitrary: coll)
  case Nil
  then show ?case by simp
next
  case (Cons t ts)
  have "set (upsert_task coll t) \<subseteq> set coll \<union> {t}"
    by (auto simp: upsert_task_def)
  with Cons.IH [of "upsert_task coll t"] show ?case by auto
qed

lemma foldl_upsert_keeps: "set coll \<subseteq> set (foldl upsert_task coll ts)"
proof (induction ts arbitrary: coll)
  case Nil
  then show ?case by simp
next
  case (Cons t ts)
  have "set coll \<subseteq> set (upsert_task coll t)"
    by (auto simp: upsert_task_def)
  with Cons.IH [of "upsert_task coll t"] show ?case by auto
qed

lemma seeded_registry: "set (setup_scheduled_tasks []) \<subseteq> set seed_tasks"
  using foldl_upsert_subset [of "[]" seed_tasks] by (simp add: setup_scheduled_tasks_def)

lemma first_seed_registered: "hourly_task 0 \<in> set (setup_scheduled_tasks [])"
proof -
  define rest where "rest = map hourly_task [1..<24] @ [cleanup_task]"
  have s: "seed_tasks = hourly_task 0 # rest"
    by (simp add: seed_tasks_def rest_def upt_conv_Cons)
  have u: "upsert_task [] (hourly_task 0) = [hourly_task 0]"
    by (simp add: upsert_task_def)
  have "setup_scheduled_tasks [] = foldl upsert_task [hourly_task 0] rest"
    by (simp only: setup_scheduled_tasks_def s foldl_Cons u)
  then show ?thesis
    using foldl_upsert_keeps [of "[hourly_task 0]" rest] by auto
qed

subsection \<open>Tolerance window\<close>

text \<open>
  Claim C1, as amended. For a task scheduled at hour \<open>H\<close> (\<open>0 \<le> H < 24\<close>), minute 0, and
  any current time, \<open>should_run_task\<close> measures the distance between the current time
  (truncated to whole minutes) and \<open>H:00\<close> of the current calendar day: outside 2 minutes
  of it the task is not due whatever its last run, and when the minimum-spacing condition
  is met the task is due exactly when the current time is within 2 minutes of it.
\<close>

theorem tolerance_same_day:
  assumes "0 \<le> sched_hour t" and "sched_hour t < 24" and "sched_minute t = 0"
  shows "(\<not> within_tolerance utcnow (sched_hour t) 0 \<longrightarrow>
            should_run_task f utcnow t = Inr False)
       \<and> (spacing_met f utcnow t \<longrightarrow>
            should_run_task f utcnow t = Inr (within_tolerance utcnow (sched_hour t) 0))"
proof -
  have v: "0 \<le> sched_minute t" "sched_minute t < 60"
    using assms(3) by simp_all
  note u = should_run_task_unfold [OF assms(1,2) v, of f utcnow]
  have outside: "\<not> within_tolerance utcnow (sched_hour t) 0 \<longrightarrow>
      should_run_task f utcnow t = Inr False"
    using u assms(3) by simp
  have inside: "spacing_met f utcnow t \<longrightarrow>
      should_run_task f utcnow t = Inr (within_tolerance utcnow (sched_hour t) 0)"
  proof
    assume sp: "spacing_met f utcnow t"
    show "should_run_task f utcnow t = Inr (within_tolerance utcnow (sched_hour t) 0)"
    proof (cases "last_run t")
      case LR_None
      then show ?thesis using u assms(3) by simp
    next
      case (LR_Datetime lr)
      then show ?thesis using u assms(3) sp by (simp add: spacing_met_def not_less)
    next
      case (LR_Str s)
      then show ?thesis using u assms(3) sp
        by (auto simp: spacing_met_def not_less split: option.splits)
    qed
  qed
  from outside inside show ?thesis by blast
qed

text \<open>
  The task scheduled at 10:00 is due from 09:59 to 10:02 and is not due at 09:55 or 10:05.
\<close>

theorem tolerance_same_day_witness:
  "should_run_task (\<lambda>s. None) (at_time 739000 9 59 30) (task_at ''cricket_news_hour_10'' 10 0 LR_None) = Inr True
 \<and> should_run_task (\<lambda>s. None) (at_time 739000 10 0 0) (task_at ''cricket_news_hour_10'' 10 0 LR_None) = Inr True
 \<and> should_run_task (\<lambda>s. None) (at_time 739000 10 1 59) (task_at ''cricket_news_hour_10'' 10 0 LR_None) = Inr True
 \<and> should_run_task (\<lambda>s. None) (at_time 739000 10 2 59) (task_at ''cricket_news_hour_10'' 10 0 LR_None) = Inr True
 \<and> should_run_task (\<lambda>s. None) (at_time 739000 9 55 0) (task_at ''cricket_news_hour_10'' 10 0 LR_None) = Inr False
 \<and> should_run_task (\<lambda>s. None) (at_time 739000 10 5 0) (task_at ''cricket_news_hour_10'' 10 0 LR_None) = Inr False"
  using tolerance_same_day [of "task_at ''cricket_news_hour_10'' 10 0 LR_None" "at_time 739000 9 59 30" "\<lambda>s. None"]
    tolerance_same_day [of "task_at ''cricket_news_hour_10'' 10 0 LR_None" "at_time 739000 10 0 0" "\<lambda>s. None"]
    tolerance_same_day [of "task_at ''cricket_news_hour_10'' 10 0 LR_None" "at_time 739000 10 1 59" "\<lambda>s. None"]
    tolerance_same_day [of "task_at ''cricket_news_hour_10'' 10 0 LR_None" "at_time 739000 10 2 59" "\<lambda>s. None"]
    tolerance_same_day [of "task_at ''cricket_news_hour_10'' 10 0 LR_None" "at_time 739000 9 55 0" "\<lambda>s. None"]
    tolerance_same_day [of "task_at ''cricket_news_hour_10'' 10 0 LR_None" "at_time 739000 10 5 0" "\<lambda>s. None"]
  by (simp add: at_time_def task_at_def within_tolerance_def minute_of_day_def spacing_met_def)

text \<open>
  Claim C1 as stated fails at midnight: 23:59 is one minute away from 00:00 on the clock,
  but \<open>task_time\<close> is 00:00 of the day that is ending, so the task of hour 0 is not due.
\<close>

theorem tolerance_midnight_counterexample:
  "clock_distance (minute_of_day (at_time 739000 23 59 0)) (0 * 60 + 0) \<le> 2
 \<and> should_run_task (\<lambda>s. None) (at_time 739000 23 59 0) (task_at ''cricket_news_hour_00'' 0 0 LR_None) = Inr False"
  by (simp add: at_time_def task_at_def clock_distance_def minute_of_day_def
      should_run_task_def replace_hour_minute_def dt_sub_def to_microseconds_def total_seconds_def)

subsection \<open>Minimum spacing\<close>

text \<open>
  Claim C2. For a task whose last run is a timestamp (a \<open>datetime\<close>, or a string that
  parses to one), the minimum interval is 23 hours when
  the name contains \<open>cleanup\<close> and 50 minutes otherwise; the task is not due while the
  time elapsed since the last run is below it, and from then on it is due exactly when the
  current time is in its tolerance window.
\<close>

theorem minimum_spacing:
  assumes "last_run_truthy (last_run t)"
    and "last_run_datetime f (last_run t) = Inr lr"
    and "valid_schedule t"
  shows "min_interval (name t) = (if contains (name t) (py ''cleanup'') then 23 * 60 * 60 else 50 * 60)
       \<and> (elapsed_since utcnow lr < min_interval (name t) * 1000000 \<longrightarrow>
            should_run_task f utcnow t = Inr False)
       \<and> (\<not> elapsed_since utcnow lr < min_interval (name t) * 1000000 \<longrightarrow>
            should_run_task f utcnow t
              = Inr (within_tolerance utcnow (sched_hour t) (sched_minute t)))"
proof -
  have v: "0 \<le> sched_hour t" "sched_hour t < 24" "0 \<le> sched_minute t" "sched_minute t < 60"
    using assms(3) by (simp_all add: valid_schedule_def)
  note u = should_run_task_unfold [OF v, of f utcnow]
  have a: "min_interval (name t) = (if contains (name t) (py ''cleanup'') then 23 * 60 * 60 else 50 * 60)"
    by (simp add: min_interval_def)
  have b: "elapsed_since utcnow lr < min_interval (name t) * 1000000 \<longrightarrow>
            should_run_task f utcnow t = Inr False"
    using u assms(1,2) by simp
  have c: "\<not> elapsed_since utcnow lr < min_interval (name t) * 1000000 \<longrightarrow>
            should_run_task f utcnow t
              = Inr (within_tolerance utcnow (sched_hour t) (sched_minute t))"
    using u assms(1,2) by simp
  from a b c show ?thesis by blast
qed

text \<open>
  Last run at 10:00: not due at 10:45, due at 10:51 (schedules chosen so that the current
  time is in the window). The daily cleanup is held back for 23 hours.
\<close>

theorem minimum_spacing_witness:
  "should_run_task (\<lambda>s. None) (at_time 739000 10 45 0)
       (task_at ''cricket_news_hour_10'' 10 45 (LR_Datetime (at_time 739000 10 0 0))) = Inr False
 \<and> should_run_task (\<lambda>s. None) (at_time 739000 10 51 0)
       (task_at ''cricket_news_hour_10'' 10 51 (LR_Datetime (at_time 739000 10 0 0))) = Inr True
 \<and> should_run_task (\<lambda>s. None) (at_time 739001 3 0 0)
       (task_at ''cleanup_old_articles_daily'' 3 0 (LR_Datetime (at_time 739000 4 0 1))) = Inr False
 \<and> should_run_task (\<lambda>s. None) (at_time 739001 3 0 0)
       (task_at ''cleanup_old_articles_daily'' 3 0 (LR_Datetime (at_time 739000 3 0 20))) = Inr True"
  using
    minimum_spacing [where t = "task_at ''cricket_news_hour_10'' 10 45 (LR_Datetime (at_time 739000 10 0 0))"
       and lr = "at_time 739000 10 0 0" and utcnow = "at_time 739000 10 45 0" and f = "\<lambda>s. None"]
    minimum_spacing [where t = "task_at ''cricket_news_hour_10'' 10 51 (LR_Datetime (at_time 739000 10 0 0))"
       and lr = "at_time 739000 10 0 0" and utcnow = "at_time 739000 10 51 0" and f = "\<lambda>s. None"]
    minimum_spacing [where t = "task_at ''cleanup_old_articles_daily'' 3 0 (LR_Datetime (at_time 739000 4 0 1))"
       and lr = "at_time 739000 4 0 1" and utcnow = "at_time 739001 3 0 0" and f = "\<lambda>s. None"]
    minimum_spacing [where t = "task_at ''cleanup_old_articles_daily'' 3 0 (LR_Datetime (at_time 739000 3 0 20))"
       and lr = "at_time 739000 3 0 20" and utcnow = "at_time 739001 3 0 0" and f = "\<lambda>s. None"]
  by (simp add: at_time_def task_at_def within_tolerance_def minute_of_day_def valid_schedule_def
      elapsed_since_def dt_sub_def to_microseconds_def py_def)

subsection \<open>First run\<close>

text \<open>
  Claim C10, as amended. Every task of a registry seeded from empty has \<open>last_run = None\<close>
  and a valid schedule.
  For a task whose last run is \<open>None\<close> the spacing test is skipped: it is due exactly when
  the current time is within 2 minutes of its scheduled time of the current calendar day.
\<close>

theorem first_run_window_only:
  "(\<forall>s \<in> set (setup_scheduled_tasks []). last_run s = LR_None \<and> valid_schedule s)
   \<and> (last_run t = LR_None \<and> valid_schedule t \<longrightarrow>
        should_run_task f utcnow t
          = Inr (within_tolerance utcnow (sched_hour t) (sched_minute t)))"
proof -
  have seeded: "\<forall>s \<in> set (setup_scheduled_tasks []). last_run s = LR_None \<and> valid_schedule s"
    using seed_last_run seed_schedule seeded_registry by (auto simp: valid_schedule_def)
  have first: "last_run t = LR_None \<and> valid_schedule t \<longrightarrow>
        should_run_task f utcnow t
          = Inr (within_tolerance utcnow (sched_hour t) (sched_minute t))"
  proof
    assume h: "last_run t = LR_None \<and> valid_schedule t"
    then have v: "0 \<le> sched_hour t" "sched_hour t < 24" "0 \<le> sched_minute t" "sched_minute t < 60"
      by (simp_all add: valid_schedule_def)
    show "should_run_task f utcnow t
          = Inr (within_tolerance utcnow (sched_hour t) (sched_minute t))"
      using should_run_task_unfold [OF v, of f utcnow] h by simp
  qed
  from seeded first show ?thesis by blast
qed

theorem first_run_window_only_witness:
  "hourly_task 0 \<in> set (setup_scheduled_tasks [])
   \<and> last_run (hourly_task 0) = LR_None \<and> valid_schedule (hourly_task 0)
   \<and> should_run_task (\<lambda>s. None) (at_time 739000 0 1 12) (hourly_task 0) = Inr True
   \<and> should_run_task (\<lambda>s. None) (at_time 739000 0 3 0) (hourly_task 0) = Inr False"
proof -
  have h: "last_run (hourly_task 0) = LR_None \<and> valid_schedule (hourly_task 0)"
    by (simp add: hourly_task_def valid_schedule_def)
  have a: "should_run_task (\<lambda>s. None) (at_time 739000 0 1 12) (hourly_task 0) = Inr True"
    using first_run_window_only [of "hourly_task 0" "\<lambda>s. None" "at_time 739000 0 1 12",
        THEN conjunct2] h
    by (simp add: hourly_task_def at_time_def within_tolerance_def minute_of_day_def)
  have b: "should_run_task (\<lambda>s. None) (at_time 739000 0 3 0) (hourly_task 0) = Inr False"
    using first_run_window_only [of "hourly_task 0" "\<lambda>s. None" "at_time 739000 0 3 0",
        THEN conjunct2] h
    by (simp add: hourly_task_def at_time_def within_tolerance_def minute_of_day_def)
  from first_seed_registered h a b show ?thesis by blast
qed

text \<open>
  Claim C10 as stated fails for the seeded task of hour 0: at 23:58 the clock is 2 minutes
  from its schedule, the task has never run, and it is not due.
\<close>

theorem first_run_midnight_counterexample:
  "hourly_task 0 \<in> set (setup_scheduled_tasks []) \<and> last_run (hourly_task 0) = LR_None
   \<and> clock_distance (minute_of_day (at_time 739000 23 58 0))
         (sched_hour (hourly_task 0) * 60 + sched_minute (hourly_task 0)) \<le> 2
   \<and> should_run_task (\<lambda>s. None) (at_time 739000 23 58 0) (hourly_task 0) = Inr False"
proof -
  have "last_run (hourly_task 0) = LR_None
   \<and> clock_distance (minute_of_day (at_time 739000 23 58 0))
         (sched_hour (hourly_task 0) * 60 + sched_minute (hourly_task 0)) \<le> 2
   \<and> should_run_task (\<lambda>s. None) (at_time 739000 23 58 0) (hourly_task 0) = Inr False"
    by (simp add: hourly_task_def at_time_def clock_distance_def minute_of_day_def
        should_run_task_def replace_hour_minute_def dt_sub_def to_microseconds_def
        total_seconds_def)
  with first_seed_registered show ?thesis by blast
qed

section \<open>Properties of the delivery client\<close>

subsection \<open>Delivery of a list of items\<close>

lemma sends_append: "sends (xs @ ys) = sends xs @ sends ys"
  by (induction xs rule: sends.induct) auto

lemma sends_item_events: "sends (item_events snk n ia) = [request_of (snd ia)]"
  by (simp add: item_events_def)

lemma post_loop_eq:
  "post_loop snk n i as c tr =
     (c + length (filter (\<lambda>ia. succeeded snk (fst ia) (snd ia)) (enumerate i as)),
      tr @ concat (map (item_events snk n) (enumerate i as)))"
proof (induction as arbitrary: i c tr)
  case Nil
  then show ?case by simp
next
  case (Cons a as)
  show ?case
  proof (cases "post_one snk i a")
    case (Inl e)
    then show ?thesis
      by (simp add: Cons.IH succeeded_def item_events_def)
  next
    case (Inr r)
    have "(int i < int n - 1) = (i + 1 < n)" by linarith
    with Inr show ?thesis
      by (simp add: Cons.IH succeeded_def item_events_def)
  qed
qed

lemma sends_concat_items:
  "sends (concat (map (item_events snk n) ias)) = map (request_of \<circ> snd) ias"
  by (induction ias) (simp_all add: sends_append sends_item_events)

text \<open>
  Claim C5, as amended. \<open>post_articles\<close> attempts the delivery of every item exactly once
  and in input order, whatever happened to the items before it; a pause of 1 follows each
  successful delivery of an item that is not the last of the input, and no pause follows a
  failed delivery; the count returned is the number of successful deliveries, between 0
  and the length of the input. No exception leaves the function: each one raised by a
  delivery is handled in the loop, which is why the result has no error alternative.
\<close>

theorem post_articles_trace:
  "post_articles snk articles =
     (length (filter (\<lambda>ia. succeeded snk (fst ia) (snd ia)) (enumerate 0 articles)),
      concat (map (item_events snk (length articles)) (enumerate 0 articles)))
   \<and> sends (snd (post_articles snk articles)) = map request_of articles
   \<and> fst (post_articles snk articles) \<le> length articles"
proof -
  have eq: "post_articles snk articles =
     (length (filter (\<lambda>ia. succeeded snk (fst ia) (snd ia)) (enumerate 0 articles)),
      concat (map (item_events snk (length articles)) (enumerate 0 articles)))"
    by (simp add: post_articles_def post_loop_eq)
  have "map (request_of \<circ> snd) (enumerate 0 articles) = map request_of articles"
    by (simp add: map_snd_enumerate flip: map_map)
  then have s: "sends (snd (post_articles snk articles)) = map request_of articles"
    by (simp add: eq sends_concat_items)
  have "length (filter (\<lambda>ia. succeeded snk (fst ia) (snd ia)) (enumerate 0 articles))
      \<le> length (enumerate 0 articles)"
    by (rule length_filter_le)
  then have b: "fst (post_articles snk articles) \<le> length articles"
    by (simp add: eq)
  from eq s b show ?thesis by blast
qed

text \<open>Three items, the second delivery fails: two are counted, one pause is made.\<close>

lemma post_one_failing_sink:
  "post_one (failing_sink ks) i a = (if i \<in> set ks then Inl (Exception (py ''timed out'')) else Inr (Json True None))"
  by (simp add: post_one_def send_photo_def send_message_def failing_sink_def check_response_def
      ok_response_def)

theorem post_articles_trace_witness:
  "post_articles (failing_sink [1]) [plain_article ''a'', plain_article ''b'', plain_article ''c''] =
     (2, [Ev_send (request_of (plain_article ''a'')), Ev_sleep 1,
          Ev_send (request_of (plain_article ''b'')),
          Ev_send (request_of (plain_article ''c''))])
   \<and> sends (snd (post_articles (failing_sink [1])
         [plain_article ''a'', plain_article ''b'', plain_article ''c'']))
       = [request_of (plain_article ''a''), request_of (plain_article ''b''),
          request_of (plain_article ''c'')]"
  using post_articles_trace [of "failing_sink [1]"
      "[plain_article ''a'', plain_article ''b'', plain_article ''c'']"]
  by (simp add: enumerate_eq_zip upt_conv_Cons succeeded_def item_events_def post_one_failing_sink)

text \<open>
  Claim C5 as stated fails when a delivery fails: the first of two deliveries fails and
  the second is attempted at once, with no pause between the two.
\<close>

theorem no_delay_after_failure_counterexample:
  "post_articles (failing_sink [0]) [plain_article ''a'', plain_article ''b''] =
     (1, [Ev_send (request_of (plain_article ''a'')), Ev_send (request_of (plain_article ''b''))])"
  by (simp add: post_articles_def post_one_failing_sink)

subsection \<open>Framing of one item\<close>

lemma endswith_iff: "endswith s suf = (\<exists>pre. s = pre @ suf)"
proof -
  have "(\<exists>r. rev s = rev suf @ r) = (\<exists>pre. s = pre @ suf)"
  proof
    assume "\<exists>r. rev s = rev suf @ r"
    then obtain r where "rev s = rev suf @ r" by auto
    then have "rev (rev s) = rev (rev suf @ r)" by simp
    then have "s = rev r @ suf" by simp
    then show "\<exists>pre. s = pre @ suf" by blast
  next
    assume "\<exists>pre. s = pre @ suf"
    then obtain pre where "s = pre @ suf" by auto
    then have "rev s = rev suf @ rev pre" by simp
    then show "\<exists>r. rev s = rev suf @ r" by blast
  qed
  then show ?thesis by (simp add: endswith_def startswith_iff)
qed

lemma length_py: "length (py s) = length s"
  by (simp add: py_def)

lemma length_cap:
  assumes "keep + 3 \<le> limit"
  shows "length (cap limit keep m) \<le> limit"
  using assms by (simp add: cap_def length_py)

lemma cap_fits: "length m \<le> limit \<Longrightarrow> cap limit keep m = m"
  by (simp add: cap_def)

lemma cap_cuts: "limit < length m \<Longrightarrow> cap limit keep m = take keep m @ py ''...''"
  by (simp add: cap_def)

lemma assemble_ends: "endswith (assemble n a) ([10, 10] @ link_line a)"
  unfolding endswith_iff
  by (auto simp: assemble_def Let_def split: option.splits)

lemma endswith_last:
  assumes "endswith s suf" and "suf \<noteq> []"
  shows "last s = last suf"
  using assms by (auto simp: endswith_iff)

text \<open>
  Claim C6, as amended. An item with an image is sent as a photo with a caption of at
  most 1024 characters, any other item as a text of at most 4096 characters. When the
  assembled text fits, it is sent whole and its last line is the anchor to the item's link;
  when it does not, the first 1020 (4090) characters followed by an ellipsis are sent.
\<close>

theorem framing_rule:
  "request_of a = (if truthy (image_url a) then SendPhoto (image_url a) (photo_caption a)
                   else SendMessage (message_text a))
   \<and> length (photo_caption a) \<le> 1024
   \<and> length (message_text a) \<le> 4096
   \<and> (if length (assemble 200 a) \<le> 1024
        then photo_caption a = assemble 200 a
           \<and> endswith (photo_caption a) ([10, 10] @ link_line a)
        else photo_caption a = take 1020 (assemble 200 a) @ py ''...'')
   \<and> (if length (assemble 300 a) \<le> 4096
        then message_text a = assemble 300 a
           \<and> endswith (message_text a) ([10, 10] @ link_line a)
        else message_text a = take 4090 (assemble 300 a) @ py ''...'')"
proof -
  have r: "request_of a = (if truthy (image_url a) then SendPhoto (image_url a) (photo_caption a)
                   else SendMessage (message_text a))"
    by (simp add: request_of_def)
  have p: "length (photo_caption a) \<le> 1024"
    unfolding photo_caption_def by (rule length_cap) simp
  have m: "length (message_text a) \<le> 4096"
    unfolding message_text_def by (rule length_cap) simp
  have pc: "if length (assemble 200 a) \<le> 1024
        then photo_caption a = assemble 200 a
           \<and> endswith (photo_caption a) ([10, 10] @ link_line a)
        else photo_caption a = take 1020 (assemble 200 a) @ py ''...''"
    using assemble_ends [of 200 a]
    by (simp add: photo_caption_def cap_fits cap_cuts)
  have mc: "if length (assemble 300 a) \<le> 4096
        then message_text a = assemble 300 a
           \<and> endswith (message_text a) ([10, 10] @ link_line a)
        else message_text a = take 4090 (assemble 300 a) @ py ''...''"
    using assemble_ends [of 300 a]
    by (simp add: message_text_def cap_fits cap_cuts)
  from r p m pc mc show ?thesis by blast
qed

theorem framing_rule_witness:
  "request_of (picture_article (py ''Final''))
     = SendPhoto (Some (py ''https://example.org/a.jpg'')) (photo_caption (picture_article (py ''Final'')))
   \<and> photo_caption (picture_article (py ''Final''))
     = py ''<b>Final</b>'' @ [10, 10] @ py ''Summary'' @ [10, 10] @ link_line (picture_article (py ''Final''))
   \<and> request_of (plain_article ''Final'') = SendMessage (message_text (plain_article ''Final''))
   \<and> message_text (plain_article ''Final'')
     = py ''<b>Final</b>'' @ [10, 10] @ link_line (plain_article ''Final'')"
  using framing_rule [of "picture_article (py ''Final'')"]
    framing_rule [of "plain_article ''Final''"]
  by (simp add: picture_article_def plain_article_def assemble_def link_line_def shorten_def py_def)

text \<open>
  Claim C6 as stated fails for a long title: the caption is cut inside the title, so it
  neither ends with the link line nor contains the link.
\<close>

lemma contains_subset: "contains s sub \<Longrightarrow> set sub \<subseteq> set s"
  by (auto simp: contains_iff)

lemma long_title_caption:
  "photo_caption (picture_article (replicate 1100 97)) = py ''<b>'' @ replicate 1017 97 @ py ''...''"
proof -
  have "length (assemble 200 (picture_article (replicate 1100 97))) > 1024"
    by (simp add: assemble_def picture_article_def Let_def)
  then have "photo_caption (picture_article (replicate 1100 97))
      = take 1020 (assemble 200 (picture_article (replicate 1100 97))) @ py ''...''"
    by (simp add: photo_caption_def cap_cuts)
  also have "take 1020 (assemble 200 (picture_article (replicate 1100 97)))
      = py ''<b>'' @ replicate 1017 97"
    by (simp add: assemble_def picture_article_def length_py Let_def)
  finally show ?thesis by simp
qed

theorem link_cut_counterexample:
  "truthy (image_url (picture_article (replicate 1100 97)))
   \<and> request_of (picture_article (replicate 1100 97))
       = SendPhoto (image_url (picture_article (replicate 1100 97)))
           (py ''<b>'' @ replicate 1017 97 @ py ''...'')
   \<and> \<not> endswith (py ''<b>'' @ replicate 1017 97 @ py ''...'')
         (link_line (picture_article (replicate 1100 97)))
   \<and> \<not> contains (py ''<b>'' @ replicate 1017 97 @ py ''...'')
         (link (picture_article (replicate 1100 97)))"
proof -
  have t: "truthy (image_url (picture_article (replicate 1100 97)))"
    by (simp add: picture_article_def py_def)
  have r: "request_of (picture_article (replicate 1100 97))
       = SendPhoto (image_url (picture_article (replicate 1100 97)))
           (py ''<b>'' @ replicate 1017 97 @ py ''...'')"
    using t by (simp add: request_of_def long_title_caption)
  have chars: "set (py ''<b>'' @ replicate 1017 97 @ py ''...'') = {60, 98, 62, 97, 46}"
    by (auto simp: py_def)
  have "104 \<in> set (link (picture_article (replicate 1100 97)))"
    by (simp add: picture_article_def py_def)
  then have "\<not> set (link (picture_article (replicate 1100 97)))
      \<subseteq> set (py ''<b>'' @ replicate 1017 97 @ py ''...'')"
    unfolding chars by auto
  then have c: "\<not> contains (py ''<b>'' @ replicate 1017 97 @ py ''...'')
         (link (picture_article (replicate 1100 97)))"
    using contains_subset by blast
  have "last (py ''<b>'' @ replicate 1017 97 @ py ''...'') = 46"
    by (simp add: py_def)
  moreover have "last (link_line (picture_article (replicate 1100 97))) = 62"
    by (simp add: link_line_def py_def)
  moreover have "link_line (picture_article (replicate 1100 97)) \<noteq> []"
    by (simp add: link_line_def)
  ultimately have e: "\<not> endswith (py ''<b>'' @ replicate 1017 97 @ py ''...'')
         (link_line (picture_article (replicate 1100 97)))"
    using endswith_last by fastforce
  from t r e c show ?thesis by blast
qed

section \<open>Properties of the feed client\<close>

lemma fetch_loop_eq:
  "length acc < 5 \<Longrightarrow>
     fetch_loop ex items acc = take 5 (acc @ List.map_filter (candidate ex) items)"
proof (induction items arbitrary: acc)
  case Nil
  then show ?case by (simp add: List.map_filter_simps)
next
  case (Cons item items)
  show ?case
  proof (cases "process_entry ex item")
    case (Inl e)
    then show ?thesis
      using Cons by (simp add: List.map_filter_simps candidate_def)
  next
    case (Inr a)
    show ?thesis
    proof (cases "length acc = 4")
      case True
      then show ?thesis
        using Inr by (simp add: List.map_filter_simps candidate_def Let_def)
    next
      case False
      then have "length (acc @ [a]) < 5" using Cons.prems by simp
      from Cons.IH [OF this] show ?thesis
        using Inr False Cons.prems by (simp add: List.map_filter_simps candidate_def Let_def)
    qed
  qed
qed

lemma fetch_feed_eq:
  "fetch_cricket_news ex (Feed es) = take 5 (List.map_filter (candidate ex) (take 10 es))"
proof (cases "es = []")
  case True
  then show ?thesis by (simp add: fetch_cricket_news_def List.map_filter_simps)
next
  case False
  have "take (min 10 (length es)) es = take 10 es" by (simp add: min_def)
  then show ?thesis
    using False by (simp add: fetch_cricket_news_def Let_def fetch_loop_eq)
qed

lemma candidate_malformed:
  "entry_link item = None \<or> entry_title item = None \<Longrightarrow> candidate ex item = None"
  by (auto simp: candidate_def process_entry_def Let_def split: option.splits prod.splits)

lemma map_filter_nothing:
  "\<forall>x \<in> set xs. f x = None \<Longrightarrow> List.map_filter f xs = []"
  by (induction xs) (simp_all add: List.map_filter_simps)

text \<open>
  Claim C9. \<open>fetch_cricket_news\<close> returns at most 5 articles: the first 5 that the first 10
  entries of the feed give, in feed order (an entry without link or title gives none);
  entries after the tenth have no influence. A feed without entries, a feed whose
  parsing raises and a feed whose entries all lack a link or a title give the empty list.
\<close>

theorem fetch_bounds:
  "length (fetch_cricket_news ex fd) \<le> 5
   \<and> fetch_cricket_news ex (Feed es) = take 5 (List.map_filter (candidate ex) (take 10 es))
   \<and> fetch_cricket_news ex (Feed es) = fetch_cricket_news ex (Feed (take 10 es))
   \<and> fetch_cricket_news ex (Feed []) = []
   \<and> fetch_cricket_news ex Feed_raises = []
   \<and> (list_all (\<lambda>item. entry_link item = None \<or> entry_title item = None) es \<longrightarrow>
        fetch_cricket_news ex (Feed es) = [])"
proof -
  have a: "length (fetch_cricket_news ex fd) \<le> 5"
    by (cases fd) (simp_all add: fetch_feed_eq, simp add: fetch_cricket_news_def)
  have b: "fetch_cricket_news ex (Feed es) = fetch_cricket_news ex (Feed (take 10 es))"
    by (simp add: fetch_feed_eq)
  have c: "fetch_cricket_news ex (Feed []) = []" "fetch_cricket_news ex Feed_raises = []"
    by (simp_all add: fetch_cricket_news_def)
  have d: "list_all (\<lambda>item. entry_link item = None \<or> entry_title item = None) es \<longrightarrow>
        fetch_cricket_news ex (Feed es) = []"
  proof
    assume "list_all (\<lambda>item. entry_link item = None \<or> entry_title item = None) es"
    then have "\<forall>item \<in> set (take 10 es). candidate ex item = None"
      using candidate_malformed [of _ ex] set_take_subset [of 10 es]
      by (auto simp: list_all_iff)
    then have "List.map_filter (candidate ex) (take 10 es) = []"
      by (rule map_filter_nothing)
    then show "fetch_cricket_news ex (Feed es) = []"
      by (simp add: fetch_feed_eq)
  qed
  from a b c d fetch_feed_eq show ?thesis by blast
qed

text \<open>
  Twelve entries, every fourth without title: five articles, from the first six entries.
  Two entries without title: no article.
\<close>

theorem fetch_bounds_witness:
  "map title (fetch_cricket_news no_enrichment (Feed (map numbered_entry [0..<12])))
     = map (\<lambda>k. [k]) [65, 66, 67, 69, 70]
   \<and> fetch_cricket_news no_enrichment (Feed (map numbered_entry [0..<12]))
     = fetch_cricket_news no_enrichment (Feed (take 10 (map numbered_entry [0..<12])))
   \<and> fetch_cricket_news no_enrichment Feed_raises = []
   \<and> fetch_cricket_news no_enrichment (Feed [numbered_entry 3, numbered_entry 7]) = []"
proof -
  note fb = fetch_bounds [of no_enrichment "Feed_raises" "map numbered_entry [0..<12]"]
  have "fetch_cricket_news no_enrichment (Feed (map numbered_entry [0..<12]))
      = take 5 (List.map_filter (candidate no_enrichment) (take 10 (map numbered_entry [0..<12])))"
    by (rule fb [THEN conjunct2, THEN conjunct1])
  then have a: "map title (fetch_cricket_news no_enrichment (Feed (map numbered_entry [0..<12])))
     = map (\<lambda>k. [k]) [65, 66, 67, 69, 70]"
    by (simp add: upt_conv_Cons List.map_filter_simps candidate_def process_entry_def
      numbered_entry_def no_enrichment_def)
  have b: "fetch_cricket_news no_enrichment (Feed (map numbered_entry [0..<12]))
     = fetch_cricket_news no_enrichment (Feed (take 10 (map numbered_entry [0..<12])))"
    by (rule fb [THEN conjunct2, THEN conjunct2, THEN conjunct1])
  have c: "fetch_cricket_news no_enrichment Feed_raises = []"
    using fb by blast
  have "list_all (\<lambda>item. entry_link item = None \<or> entry_title item = None)
      [numbered_entry 3, numbered_entry 7]"
    by (simp add: numbered_entry_def)
  then have d: "fetch_cricket_news no_enrichment (Feed [numbered_entry 3, numbered_entry 7]) = []"
    using fetch_bounds [of no_enrichment "Feed_raises" "[numbered_entry 3, numbered_entry 7]"]
    by blast
  from a b c d show ?thesis by blast
qed

section \<open>Properties of the store\<close>

lemma find_one_None: "find_one d t s = None \<Longrightarrow> filter (matches t s) (news_articles d) = []"
  by (auto simp: find_one_def find_None_iff filter_empty_conv)

lemma find_append_new:
  "List.find P xs = None \<Longrightarrow> P x \<Longrightarrow> List.find P (xs @ [x]) = Some x"
  by (induction xs) (auto split: if_splits)

lemma save_article_new:
  assumes "db_up e (calls w)" and "find_one (store w) (title a) (source a) = None"
  shows "save_article e a w =
     (Some (next_id (store w)),
      w\<lparr>calls := calls w + 1, trace := trace w @ [Ev_save_article (title a) (source a)],
        store := (store w)
          \<lparr>news_articles := news_articles (store w) @
              [article_document (clock e (calls w)) a (next_id (store w))],
           next_id := next_id (store w) + 1\<rparr>\<rparr>)"
  using assms by (simp add: save_article_def Let_def)

lemma save_article_known:
  assumes "db_up e (calls w)" and "find_one (store w) (title a) (source a) = Some d"
  shows "store (snd (save_article e a w)) = store w"
    and "calls (snd (save_article e a w)) = calls w + 2"
    and "db_up e (calls w + 1) \<Longrightarrow> fst (save_article e a w) = Some (doc_id d)"
  using assms by (simp_all add: save_article_def Let_def)

text \<open>
  Claim C7. When the key (title, source) is not stored and both upserts reach the
  database, saving two articles with that key one after the other leaves exactly one
  document with the key; its content (link, image, description, posted flag, timestamp) is
  that of the first article and of the time of the first call, the second call changes
  nothing in the store, and both calls return the same id.
\<close>

theorem save_article_twice:
  assumes same: "title a2 = title a1 \<and> source a2 = source a1"
    and up: "db_up e (calls w) \<and> db_up e (calls w + 1)"
    and absent: "find_one (store w) (title a1) (source a1) = None"
  shows "news_articles (store (snd (save_article e a2 (snd (save_article e a1 w)))))
           = news_articles (store w) @ [article_document (clock e (calls w)) a1 (next_id (store w))]
       \<and> store (snd (save_article e a2 (snd (save_article e a1 w))))
           = store (snd (save_article e a1 w))
       \<and> key_count (store (snd (save_article e a2 (snd (save_article e a1 w)))))
           (title a1) (source a1) = 1
       \<and> find_one (store (snd (save_article e a2 (snd (save_article e a1 w)))))
           (title a1) (source a1)
           = Some (article_document (clock e (calls w)) a1 (next_id (store w)))
       \<and> fst (save_article e a1 w) = Some (next_id (store w))
       \<and> (db_up e (calls w + 2) \<longrightarrow>
            fst (save_article e a2 (snd (save_article e a1 w))) = Some (next_id (store w)))"
proof -
  let ?d = "article_document (clock e (calls w)) a1 (next_id (store w))"
  let ?w1 = "snd (save_article e a1 w)"
  have first: "save_article e a1 w =
     (Some (next_id (store w)),
      w\<lparr>calls := calls w + 1, trace := trace w @ [Ev_save_article (title a1) (source a1)],
        store := (store w)
          \<lparr>news_articles := news_articles (store w) @ [?d],
           next_id := next_id (store w) + 1\<rparr>\<rparr>)"
    using up absent by (simp add: save_article_new)
  have arts1: "news_articles (store ?w1) = news_articles (store w) @ [?d]"
    and calls1: "calls ?w1 = calls w + 1"
    by (simp_all add: first)
  have m: "matches (title a1) (source a1) ?d"
    by (simp add: matches_def article_document_def)
  have found: "find_one (store ?w1) (title a2) (source a2) = Some ?d"
    using absent m same by (simp add: find_one_def arts1 find_append_new)
  have up2: "db_up e (calls ?w1)"
    using up calls1 by simp
  have st2: "store (snd (save_article e a2 ?w1)) = store ?w1"
    using save_article_known(1) [OF up2 found] .
  have cnt: "key_count (store ?w1) (title a1) (source a1) = 1"
    using find_one_None [OF absent] m by (simp add: key_count_def arts1)
  have r2: "db_up e (calls w + 2) \<longrightarrow> fst (save_article e a2 ?w1) = Some (next_id (store w))"
    using save_article_known(3) [OF up2 found] calls1 by (simp add: article_document_def)
  show ?thesis
    using st2 arts1 cnt found same r2 first by simp
qed

text \<open>The second article has another link; the stored document keeps the first one.\<close>

theorem save_article_twice_witness:
  "news_articles (store (snd (save_article (test_env [] Feed_raises []) second_fetch
       (snd (save_article (test_env [] Feed_raises []) (plain_article ''Ashes'') empty_world)))))
     = [article_document (at_time 739000 10 0 0) (plain_article ''Ashes'') 0]
   \<and> link second_fetch \<noteq> link (plain_article ''Ashes'')"
proof -
  have h1: "title second_fetch = title (plain_article ''Ashes'')
      \<and> source second_fetch = source (plain_article ''Ashes'')"
    by (simp add: second_fetch_def)
  have h2: "db_up (test_env [] Feed_raises []) (calls empty_world)
      \<and> db_up (test_env [] Feed_raises []) (calls empty_world + 1)"
    by (simp add: test_env_def)
  have h3: "find_one (store empty_world) (title (plain_article ''Ashes''))
      (source (plain_article ''Ashes'')) = None"
    by (simp add: empty_world_def find_one_def)
  have "news_articles (store (snd (save_article (test_env [] Feed_raises []) second_fetch
       (snd (save_article (test_env [] Feed_raises []) (plain_article ''Ashes'') empty_world)))))
     = news_articles (store empty_world) @
       [article_document (clock (test_env [] Feed_raises []) (calls empty_world))
          (plain_article ''Ashes'') (next_id (store empty_world))]"
    by (rule save_article_twice [OF h1 h2 h3, THEN conjunct1])
  moreover have "news_articles (store empty_world) = []" "calls empty_world = 0"
    "next_id (store empty_world) = 0"
    by (simp_all add: empty_world_def)
  moreover have "clock (test_env [] Feed_raises []) 0 = at_time 739000 10 0 0"
    by (simp add: test_env_def)
  moreover have "link second_fetch \<noteq> link (plain_article ''Ashes'')"
    by (simp add: second_fetch_def plain_article_def py_def)
  ultimately show ?thesis by simp
qed

section \<open>Properties of the ingestion pipeline\<close>

lemma article_exists_store [simp]: "store (snd (article_exists e t s w)) = store w"
  by (simp add: article_exists_def Let_def)

lemma save_article_bot_status [simp]:
  "bot_status (store (snd (save_article e a w))) = bot_status (store w)"
  by (simp add: save_article_def Let_def split: option.splits)

lemma filter_new_bot_status:
  "bot_status (store (snd (filter_new e as new w))) = bot_status (store w)"
proof (induction as arbitrary: new w)
  case Nil
  then show ?case by simp
next
  case (Cons a as)
  show ?case
  proof (cases "fst (article_exists e (title a) (source a) w)")
    case True
    then show ?thesis
      using Cons.IH [of new "snd (article_exists e (title a) (source a) w)"]
      by (simp add: split_beta Let_def)
  next
    case False
    then show ?thesis
      using Cons.IH [of "new @ [a\<lparr>is_posted := Some False\<rparr>]"
          "snd (save_article e (a\<lparr>is_posted := Some False\<rparr>)
             (snd (article_exists e (title a) (source a) w)))"]
      by (simp add: split_beta Let_def)
  qed
qed

lemma save_bot_status_recorded:
  "recorded (snd (save_bot_status e sd w)) =
     recorded w @
       (if db_up e (calls w)
        then [(case sd_status sd of None \<Rightarrow> py ''active'' | Some s \<Rightarrow> s,
               case sd_articles_posted sd of None \<Rightarrow> 0 | Some n \<Rightarrow> n,
               sd_error_message sd)]
        else [])"
  by (simp add: save_bot_status_def recorded_def status_view_def status_document_def Let_def)

lemma save_bot_status_articles [simp]:
  "news_articles (store (snd (save_bot_status e sd w))) = news_articles (store w)"
  by (simp add: save_bot_status_def Let_def)

lemma save_bot_status_trace [simp]:
  "trace (snd (save_bot_status e sd w)) = trace w @ [Ev_save_status]"
  by (simp add: save_bot_status_def Let_def)

lemma run_body_empty_feed:
  assumes "bot_reachable e" and "fetched e = []"
  shows "run_body e w =
     (Inr (Success_message (py ''No articles found'')),
      snd (save_bot_status e
        \<lparr>sd_articles_posted = Some 0, sd_status = Some (py ''success''),
         sd_error_message = Some (py ''No articles found'')\<rparr> (after_feed w)))"
  using assms
  by (simp add: run_body_def bot_reachable_def fetched_def after_feed_def Let_def split_beta)

subsection \<open>Empty feed\<close>

text \<open>
  Claim C8. In a run where the bot answers and the feed client returns no article, the
  result is the success message \<open>No articles found\<close>; the status that the run appends
  (when the database takes it) is a success with 0 articles posted and that message; the
  run makes no existence check, no insert and no delivery (its events are the probe of the
  bot, the fetch and the status), and the articles of the store are unchanged.
\<close>

theorem empty_feed_is_success:
  assumes "bot_reachable e" and "fetched e = []"
  shows "fst (fetch_and_post_cricket_news e w) = Success_message (py ''No articles found'')
       \<and> recorded (snd (fetch_and_post_cricket_news e w))
           = recorded w @ (if db_up e (calls w)
                           then [(py ''success'', 0, Some (py ''No articles found''))] else [])
       \<and> trace (snd (fetch_and_post_cricket_news e w))
           = trace w @ [Ev_get_me, Ev_feed, Ev_save_status]
       \<and> news_articles (store (snd (fetch_and_post_cricket_news e w)))
           = news_articles (store w)"
proof -
  have c: "calls (after_feed w) = calls w" "recorded (after_feed w) = recorded w"
    "trace (after_feed w) = trace w @ [Ev_get_me, Ev_feed]"
    "news_articles (store (after_feed w)) = news_articles (store w)"
    by (simp_all add: after_feed_def recorded_def)
  show ?thesis
    by (simp add: fetch_and_post_cricket_news_def run_body_empty_feed [OF assms]
        save_bot_status_recorded c)
qed

subsection \<open>Runs that reach the delivery\<close>

lemma run_body_post:
  assumes "bot_reachable e" and "new_articles_of e w \<noteq> []"
  shows "run_body e w =
     (let new_articles = new_articles_of e w;
          (posted_count, sent) = post_articles (telegram e) new_articles;
          w3 = (after_filter e w)\<lparr>trace := trace (after_filter e w) @ sent\<rparr>
      in if posted_count = 0
         then (Inl (Exception (py ''Failed to post any articles'')), w3)
         else
           (let w4 = mark_all e new_articles w3;
                (saved, w5) = save_bot_status e
                   \<lparr>sd_articles_posted = Some posted_count,
                    sd_status = Some (py ''success''),
                    sd_error_message = None\<rparr> w4
            in (Inr (Success_posted (length (fetched e)) (length new_articles)
                      posted_count (clock e (calls w5))), w5)))"
proof -
  have ne: "fetched e \<noteq> []"
  proof
    assume "fetched e = []"
    then have "new_articles_of e w = []" by (simp add: new_articles_of_def)
    with assms(2) show False by simp
  qed
  have aw: "w\<lparr>trace := trace w @ [Ev_get_me], trace := trace w @ [Ev_get_me, Ev_feed]\<rparr> = after_feed w"
    by (simp add: after_feed_def)
  show ?thesis
    using assms ne
    by (simp add: run_body_def bot_reachable_def Let_def split_beta
        flip: fetched_def)
      (auto simp: new_articles_of_def after_filter_def after_feed_def)
qed

lemma marks_append: "marks (xs @ ys) = marks xs @ marks ys"
  by (induction xs rule: marks.induct) auto

lemma article_exists_trace [simp]:
  "trace (snd (article_exists e t s w)) = trace w @ [Ev_article_exists t s]"
  by (simp add: article_exists_def Let_def)

lemma save_article_trace [simp]:
  "trace (snd (save_article e a w)) = trace w @ [Ev_save_article (title a) (source a)]"
  by (simp add: save_article_def Let_def split: option.splits)

lemma filter_new_step:
  "filter_new e (a # as) new w =
     (if fst (article_exists e (title a) (source a) w)
      then filter_new e as new (snd (article_exists e (title a) (source a) w))
      else filter_new e as (new @ [a\<lparr>is_posted := Some False\<rparr>])
             (snd (save_article e (a\<lparr>is_posted := Some False\<rparr>)
                (snd (article_exists e (title a) (source a) w)))))"
  by (simp add: split_beta Let_def)

lemma filter_new_trace:
  "sends (trace (snd (filter_new e as new w))) = sends (trace w)
   \<and> marks (trace (snd (filter_new e as new w))) = marks (trace w)"
proof (induction as arbitrary: new w)
  case Nil
  then show ?case by simp
next
  case (Cons a as)
  show ?case
    unfolding filter_new_step
    by (simp add: Cons.IH sends_append marks_append)
qed

lemma post_articles_sends: "sends (snd (post_articles snk as)) = map request_of as"
proof -
  have "map (request_of \<circ> snd) (enumerate 0 as) = map request_of as"
    by (simp add: map_snd_enumerate flip: map_map)
  then show ?thesis
    by (simp add: post_articles_def post_loop_eq sends_concat_items)
qed

lemma marks_item_events: "marks (concat (map (item_events snk n) ias)) = []"
  by (induction ias) (simp_all add: marks_append item_events_def)

lemma marks_post_articles: "marks (snd (post_articles snk as)) = []"
  by (simp add: post_articles_def post_loop_eq marks_item_events)

text \<open>
  Claim C3. In a run where the list of new articles is not empty and \<open>post_articles\<close>
  returns 0, the result is an error with the message \<open>Failed to post any articles\<close>; the
  status that the run appends (when the database takes it) is an error with 0 articles
  posted and that message; and the delivery of every new article was attempted, none of
  them raising to the pipeline.
\<close>

theorem zero_deliveries_is_error:
  assumes "bot_reachable e"
    and "new_articles_of e w \<noteq> []"
    and "fst (post_articles (telegram e) (new_articles_of e w)) = 0"
  shows "fst (fetch_and_post_cricket_news e w)
           = Error_result (py ''Failed to post any articles'')
               (clock e (calls (snd (fetch_and_post_cricket_news e w))))
       \<and> recorded (snd (fetch_and_post_cricket_news e w))
           = recorded w @
             (if db_up e (calls (after_filter e w))
              then [(py ''error'', 0, Some (py ''Failed to post any articles''))] else [])
       \<and> sends (trace (snd (fetch_and_post_cricket_news e w)))
           = sends (trace w) @ map request_of (new_articles_of e w)"
proof -
  let ?sent = "snd (post_articles (telegram e) (new_articles_of e w))"
  let ?w3 = "(after_filter e w)\<lparr>trace := trace (after_filter e w) @ ?sent\<rparr>"
  let ?sd = "\<lparr>sd_articles_posted = Some 0, sd_status = Some (py ''error''),
              sd_error_message = Some (py ''Failed to post any articles'')\<rparr>"
  have body: "run_body e w = (Inl (Exception (py ''Failed to post any articles'')), ?w3)"
    using assms(3) by (simp add: run_body_post [OF assms(1,2)] Let_def split_beta)
  have run: "fetch_and_post_cricket_news e w =
      (Error_result (py ''Failed to post any articles'')
         (clock e (calls (snd (save_bot_status e ?sd ?w3)))),
       snd (save_bot_status e ?sd ?w3))"
    by (simp add: fetch_and_post_cricket_news_def body split_beta Let_def)
  have rec0: "recorded (after_filter e w) = recorded w"
    by (simp add: recorded_def after_filter_def filter_new_bot_status after_feed_def)
  have rec3: "recorded ?w3 = recorded w"
    using rec0 by (simp add: recorded_def)
  have tr0: "sends (trace (after_filter e w)) = sends (trace w)"
    by (simp add: after_filter_def filter_new_trace after_feed_def sends_append)
  have snt: "sends ?sent = map request_of (new_articles_of e w)"
    using post_articles_sends by simp
  have a: "fst (fetch_and_post_cricket_news e w)
           = Error_result (py ''Failed to post any articles'')
               (clock e (calls (snd (fetch_and_post_cricket_news e w))))"
    by (simp add: run)
  have b: "recorded (snd (fetch_and_post_cricket_news e w))
           = recorded w @
             (if db_up e (calls (after_filter e w))
              then [(py ''error'', 0, Some (py ''Failed to post any articles''))] else [])"
    by (simp add: run save_bot_status_recorded rec3)
  have c: "sends (trace (snd (fetch_and_post_cricket_news e w)))
           = sends (trace w) @ map request_of (new_articles_of e w)"
    by (simp add: run sends_append tr0 snt)
  from a b c show ?thesis by blast
qed

subsection \<open>Marking as posted\<close>

lemma find_append_found: "List.find P xs = Some x \<Longrightarrow> List.find P (xs @ ys) = Some x"
  by (induction xs) (auto split: if_splits)

lemma find_update_first_same:
  assumes "\<And>x. P (f x) = P x"
  shows "List.find P (update_first P f xs) = map_option f (List.find P xs)"
  using assms by (induction xs) auto

lemma find_update_first_other:
  assumes "\<And>x. Q (f x) = Q x" and "\<And>x. P x \<Longrightarrow> \<not> Q x"
  shows "List.find Q (update_first P f xs) = List.find Q xs"
  using assms by (induction xs) auto

lemma find_one_after_mark:
  assumes "db_up e (calls w)"
  shows "find_one (store (mark_article_posted e t s w)) t' s' =
     (if t' = t \<and> s' = s
      then map_option (\<lambda>d. d\<lparr>doc_is_posted := True\<rparr>) (find_one (store w) t' s')
      else find_one (store w) t' s')"
proof (cases "t' = t \<and> s' = s")
  case True
  have "List.find (matches t s)
      (update_first (matches t s) (\<lambda>d. d\<lparr>doc_is_posted := True\<rparr>) (news_articles (store w)))
    = map_option (\<lambda>d. d\<lparr>doc_is_posted := True\<rparr>) (List.find (matches t s) (news_articles (store w)))"
    by (rule find_update_first_same) (simp add: matches_def)
  then show ?thesis
    using True assms by (simp add: mark_article_posted_def find_one_def Let_def)
next
  case False
  have "List.find (matches t' s')
      (update_first (matches t s) (\<lambda>d. d\<lparr>doc_is_posted := True\<rparr>) (news_articles (store w)))
    = List.find (matches t' s') (news_articles (store w))"
    by (rule find_update_first_other) (use False in \<open>auto simp: matches_def\<close>)
  then show ?thesis
    using False assms by (auto simp: mark_article_posted_def find_one_def Let_def)
qed

lemma mark_keeps_stored:
  assumes "db_up e (calls w)" and "stored_in (store w) t' s'"
  shows "stored_in (store (mark_article_posted e t s w)) t' s'"
  using assms(2) by (auto simp: stored_in_def find_one_after_mark [OF assms(1)])

lemma mark_keeps_posted:
  assumes "db_up e (calls w)" and "posted_in (store w) t' s'"
  shows "posted_in (store (mark_article_posted e t s w)) t' s'"
  using assms(2)
  by (auto simp: posted_in_def find_one_after_mark [OF assms(1)] split: option.splits)

lemma mark_posts:
  assumes "db_up e (calls w)" and "stored_in (store w) t s"
  shows "posted_in (store (mark_article_posted e t s w)) t s"
  using assms(2)
  by (auto simp: posted_in_def stored_in_def find_one_after_mark [OF assms(1)] split: option.splits)

lemma mark_all_keeps_stored:
  assumes "\<forall>k. db_up e k" and "stored_in (store w) t s"
  shows "stored_in (store (mark_all e as w)) t s"
  using assms(2)
proof (induction as arbitrary: w)
  case Nil
  then show ?case by simp
next
  case (Cons a as)
  have "db_up e (calls w)" using assms(1) by simp
  from mark_keeps_stored [OF this Cons.prems] show ?case
    by (simp add: Cons.IH)
qed

lemma mark_all_keeps_posted:
  assumes "\<forall>k. db_up e k" and "posted_in (store w) t s"
  shows "posted_in (store (mark_all e as w)) t s"
  using assms(2)
proof (induction as arbitrary: w)
  case Nil
  then show ?case by simp
next
  case (Cons a as)
  have "db_up e (calls w)" using assms(1) by simp
  from mark_keeps_posted [OF this Cons.prems] show ?case
    by (simp add: Cons.IH)
qed

lemma mark_all_posts:
  assumes up: "\<forall>k. db_up e k"
    and "\<forall>a \<in> set as. stored_in (store w) (title a) (source a)"
  shows "\<forall>a \<in> set as. posted_in (store (mark_all e as w)) (title a) (source a)"
  using assms(2)
proof (induction as arbitrary: w)
  case Nil
  then show ?case by simp
next
  case (Cons a as)
  let ?w1 = "mark_article_posted e (title a) (source a) w"
  have u: "db_up e (calls w)" using up by simp
  have st: "\<forall>b \<in> set as. stored_in (store ?w1) (title b) (source b)"
    using Cons.prems mark_keeps_stored [OF u] by simp
  have "posted_in (store ?w1) (title a) (source a)"
    using Cons.prems mark_posts [OF u] by simp
  then have "posted_in (store (mark_all e as ?w1)) (title a) (source a)"
    by (rule mark_all_keeps_posted [OF up])
  with Cons.IH [OF st] show ?case by simp
qed

lemma mark_all_trace:
  "marks (trace (mark_all e as w)) = marks (trace w) @ map (\<lambda>a. (title a, source a)) as"
proof (induction as arbitrary: w)
  case Nil
  then show ?case by simp
next
  case (Cons a as)
  have "marks (trace (mark_article_posted e (title a) (source a) w))
      = marks (trace w) @ [(title a, source a)]"
    by (simp add: mark_article_posted_def Let_def marks_append)
  then show ?case by (simp add: Cons.IH)
qed

lemma save_article_stores:
  assumes "db_up e (calls w)"
  shows "stored_in (store (snd (save_article e a w))) (title a) (source a)"
proof (cases "find_one (store w) (title a) (source a)")
  case None
  have "matches (title a) (source a)
      (article_document (clock e (calls w)) a (next_id (store w)))"
    by (simp add: matches_def article_document_def)
  then show ?thesis
    using None assms
    by (simp add: save_article_def Let_def stored_in_def find_one_def find_append_new)
next
  case (Some d)
  then show ?thesis
    using assms by (simp add: save_article_def Let_def stored_in_def)
qed

lemma save_article_keeps_stored:
  assumes "stored_in (store w) t s"
  shows "stored_in (store (snd (save_article e a w))) t s"
proof -
  from assms obtain d where d: "List.find (matches t s) (news_articles (store w)) = Some d"
    by (auto simp: stored_in_def find_one_def)
  show ?thesis
    by (auto simp: save_article_def Let_def stored_in_def find_one_def d
        find_append_found [OF d] split: option.splits)
qed

lemma filter_new_stores:
  assumes up: "\<forall>k. db_up e k"
    and "\<forall>a \<in> set new. stored_in (store w) (title a) (source a)"
  shows "\<forall>a \<in> set (fst (filter_new e as new w)).
           stored_in (store (snd (filter_new e as new w))) (title a) (source a)"
  using assms(2)
proof (induction as arbitrary: new w)
  case Nil
  then show ?case by simp
next
  case (Cons a as)
  let ?w1 = "snd (article_exists e (title a) (source a) w)"
  let ?a = "a\<lparr>is_posted := Some False\<rparr>"
  let ?w2 = "snd (save_article e ?a ?w1)"
  show ?case
  proof (cases "fst (article_exists e (title a) (source a) w)")
    case True
    have "\<forall>b \<in> set new. stored_in (store ?w1) (title b) (source b)"
      using Cons.prems by simp
    from Cons.IH [OF this] show ?thesis
      using True by (simp only: filter_new_step if_True)
  next
    case False
    have u: "db_up e (calls ?w1)" using up by simp
    have "stored_in (store ?w2) (title ?a) (source ?a)"
      by (rule save_article_stores [OF u])
    moreover have "\<forall>b \<in> set new. stored_in (store ?w2) (title b) (source b)"
      using Cons.prems save_article_keeps_stored [of ?w1 _ _ e ?a] by simp
    ultimately have "\<forall>b \<in> set (new @ [?a]). stored_in (store ?w2) (title b) (source b)"
      by simp
    from Cons.IH [OF this] show ?thesis
      using False by (simp only: filter_new_step if_False)
  qed
qed

text \<open>
  Claim C4. In a run that reaches the mark-posted step (the bot answers and at least one
  delivery succeeded), \<open>mark_article_posted\<close> is called for every new article, in order,
  whatever the outcome of that article's own delivery; when the calls of the database
  succeed, every new article is stored with \<open>is_posted = True\<close> at the end of the run.
\<close>

theorem all_new_articles_marked:
  assumes "bot_reachable e"
    and "0 < fst (post_articles (telegram e) (new_articles_of e w))"
  shows "fst (fetch_and_post_cricket_news e w)
           = Success_posted (length (fetched e)) (length (new_articles_of e w))
               (fst (post_articles (telegram e) (new_articles_of e w)))
               (clock e (calls (snd (fetch_and_post_cricket_news e w))))
       \<and> marks (trace (snd (fetch_and_post_cricket_news e w)))
           = marks (trace w) @ map (\<lambda>a. (title a, source a)) (new_articles_of e w)
       \<and> ((\<forall>k. db_up e k) \<longrightarrow>
            (\<forall>a \<in> set (new_articles_of e w).
               posted_in (store (snd (fetch_and_post_cricket_news e w))) (title a) (source a)))"
proof -
  let ?new = "new_articles_of e w"
  let ?n = "fst (post_articles (telegram e) ?new)"
  let ?sent = "snd (post_articles (telegram e) ?new)"
  let ?w3 = "(after_filter e w)\<lparr>trace := trace (after_filter e w) @ ?sent\<rparr>"
  let ?w4 = "mark_all e ?new ?w3"
  let ?sd = "\<lparr>sd_articles_posted = Some ?n, sd_status = Some (py ''success''),
              sd_error_message = None\<rparr>"
  let ?w5 = "snd (save_bot_status e ?sd ?w4)"
  have ne: "?new \<noteq> []"
  proof
    assume "?new = []"
    then have "?n = 0" by (simp add: post_articles_def)
    with assms(2) show False by simp
  qed
  have body: "run_body e w =
      (Inr (Success_posted (length (fetched e)) (length ?new) ?n (clock e (calls ?w5))), ?w5)"
    using assms(2) by (simp add: run_body_post [OF assms(1) ne] Let_def split_beta)
  have run: "fetch_and_post_cricket_news e w =
      (Success_posted (length (fetched e)) (length ?new) ?n (clock e (calls ?w5)), ?w5)"
    by (simp add: fetch_and_post_cricket_news_def body)
  have a: "fst (fetch_and_post_cricket_news e w)
           = Success_posted (length (fetched e)) (length ?new) ?n
               (clock e (calls (snd (fetch_and_post_cricket_news e w))))"
    by (simp add: run)
  have m3: "marks (trace (after_filter e w)) = marks (trace w)"
    by (simp add: marks_append after_filter_def filter_new_trace after_feed_def)
  have b: "marks (trace (snd (fetch_and_post_cricket_news e w)))
           = marks (trace w) @ map (\<lambda>a. (title a, source a)) ?new"
    by (simp add: run marks_append mark_all_trace m3 marks_post_articles)
  have c: "(\<forall>k. db_up e k) \<longrightarrow>
            (\<forall>a \<in> set ?new.
               posted_in (store (snd (fetch_and_post_cricket_news e w))) (title a) (source a))"
  proof
    assume up: "\<forall>k. db_up e k"
    have "\<forall>a \<in> set (fst (filter_new e (fetched e) [] (after_feed w))).
        stored_in (store (snd (filter_new e (fetched e) [] (after_feed w)))) (title a) (source a)"
      by (rule filter_new_stores [OF up]) simp
    then have "\<forall>a \<in> set ?new. stored_in (store ?w3) (title a) (source a)"
      by (simp add: new_articles_of_def after_filter_def)
    then have "\<forall>a \<in> set ?new. posted_in (store ?w4) (title a) (source a)"
      by (rule mark_all_posts [OF up])
    moreover have "\<And>t s. posted_in (store ?w5) t s = posted_in (store ?w4) t s"
      by (simp add: posted_in_def find_one_def)
    ultimately show "\<forall>a \<in> set ?new.
        posted_in (store (snd (fetch_and_post_cricket_news e w))) (title a) (source a)"
      by (simp add: run)
  qed
  from a b c show ?thesis by blast
qed

subsection \<open>Example runs\<close>

text \<open>
  A feed of two entries and an empty store: both articles are new. The sink fails the
  deliveries whose indices are listed.
\<close>

lemma test_env_reachable: "bot_reachable (test_env down fd failing)"
  by (simp add: bot_reachable_def get_bot_info_def test_env_def)

lemma test_new_articles:
  "new_articles_of (test_env [] two_entries failing) empty_world
     = [fetched_article 0, fetched_article 1]"
  by code_simp

lemma test_posted_one:
  "fst (post_articles (failing_sink [0]) [fetched_article 0, fetched_article 1]) = 1"
  by code_simp

lemma test_posted_none:
  "fst (post_articles (failing_sink [0, 1]) [fetched_article 0, fetched_article 1]) = 0"
  by code_simp

text \<open>An empty feed.\<close>

theorem empty_feed_is_success_witness:
  "fst (fetch_and_post_cricket_news (test_env [] (Feed []) []) empty_world)
     = Success_message (py ''No articles found'')
   \<and> recorded (snd (fetch_and_post_cricket_news (test_env [] (Feed []) []) empty_world))
     = [(py ''success'', 0, Some (py ''No articles found''))]
   \<and> trace (snd (fetch_and_post_cricket_news (test_env [] (Feed []) []) empty_world))
     = [Ev_get_me, Ev_feed, Ev_save_status]
   \<and> news_articles (store (snd (fetch_and_post_cricket_news (test_env [] (Feed []) [])
        empty_world))) = []"
proof -
  have h: "fetched (test_env [] (Feed []) []) = []"
    by (simp add: fetched_def test_env_def fetch_cricket_news_def)
  have w: "recorded empty_world = []" "trace empty_world = []" "calls empty_world = 0"
    "news_articles (store empty_world) = []"
    by (simp_all add: recorded_def empty_world_def)
  have up: "db_up (test_env [] (Feed []) []) 0"
    by (simp add: test_env_def)
  show ?thesis
    using empty_feed_is_success [OF test_env_reachable h, of empty_world] w up by simp
qed

text \<open>Both deliveries fail.\<close>

theorem zero_deliveries_is_error_witness:
  "new_articles_of (test_env [] two_entries [0, 1]) empty_world
     = [fetched_article 0, fetched_article 1]
   \<and> fst (fetch_and_post_cricket_news (test_env [] two_entries [0, 1]) empty_world)
     = Error_result (py ''Failed to post any articles'')
         (clock (test_env [] two_entries [0, 1])
            (calls (snd (fetch_and_post_cricket_news (test_env [] two_entries [0, 1])
               empty_world))))
   \<and> recorded (snd (fetch_and_post_cricket_news (test_env [] two_entries [0, 1]) empty_world))
     = [(py ''error'', 0, Some (py ''Failed to post any articles''))]"
proof -
  let ?e = "test_env [] two_entries [0, 1]"
  have tel: "telegram ?e = failing_sink [0, 1]"
    by (simp add: test_env_def)
  have h2: "new_articles_of ?e empty_world \<noteq> []"
    by (simp only: test_new_articles) simp
  have h3: "fst (post_articles (telegram ?e) (new_articles_of ?e empty_world)) = 0"
    by (simp only: tel test_new_articles test_posted_none)
  have up: "db_up ?e (calls (after_filter ?e empty_world))"
    by (simp add: test_env_def)
  have w: "recorded empty_world = []"
    by (simp add: recorded_def empty_world_def)
  show ?thesis
    using zero_deliveries_is_error [OF test_env_reachable h2 h3] up w test_new_articles
    by simp
qed

text \<open>The first delivery fails, the second succeeds: both articles are marked.\<close>

theorem all_new_articles_marked_witness:
  "\<not> succeeded (failing_sink [0]) 0 (fetched_article 0)
   \<and> posted_in (store (snd (fetch_and_post_cricket_news (test_env [] two_entries [0])
         empty_world))) (title (fetched_article 0)) (source (fetched_article 0))
   \<and> posted_in (store (snd (fetch_and_post_cricket_news (test_env [] two_entries [0])
         empty_world))) (title (fetched_article 1)) (source (fetched_article 1))
   \<and> marks (trace (snd (fetch_and_post_cricket_news (test_env [] two_entries [0])
         empty_world)))
     = [(title (fetched_article 0), source (fetched_article 0)),
        (title (fetched_article 1), source (fetched_article 1))]"
proof -
  let ?e = "test_env [] two_entries [0]"
  have tel: "telegram ?e = failing_sink [0]"
    by (simp add: test_env_def)
  have h2: "0 < fst (post_articles (telegram ?e) (new_articles_of ?e empty_world))"
    by (simp only: tel test_new_articles test_posted_one zero_less_one)
  have up: "\<forall>k. db_up ?e k"
    by (simp add: test_env_def)
  have w: "trace empty_world = []"
    by (simp add: empty_world_def)
  have f: "\<not> succeeded (failing_sink [0]) 0 (fetched_article 0)"
    by (simp add: succeeded_def post_one_failing_sink)
  show ?thesis
    using all_new_articles_marked [OF test_env_reachable h2] up w f test_new_articles
    by simp
qed

end
